theory Spec2Isabelle
  imports Complex_Main "HOL-Library.AList" "HOL-Library.Multiset" "HOL-Library.Log_Nat"
begin

section \<open>Python values and exceptions\<close>

text \<open>
  The resolver of \<^verbatim>\<open>market_resolver.py\<close> receives whatever \<^verbatim>\<open>json.loads\<close> produced.
  \<open>pyval\<close> is the type of such values. \<open>PNum r\<close> stands for the \<^verbatim>\<open>int\<close>, \<^verbatim>\<open>float\<close> and
  \<^verbatim>\<open>bool\<close> values equal to \<open>r\<close>: Python's \<^verbatim>\<open>==\<close> and \<^verbatim>\<open>hash\<close> identify \<^verbatim>\<open>True\<close>, \<^verbatim>\<open>1\<close> and
  \<^verbatim>\<open>1.0\<close>, so that equality of hashable \<open>pyval\<close>s is Python's equality of dictionary keys.
  A float is the rational number that the binary64 value stands for; NaN and the
  infinities are not modelled. A \<open>string\<close> is a sequence of code points below 256. A dictionary is
  an association list in insertion order whose first binding of a key is the one that
  counts.
\<close>

datatype pyval =
    PNone
  | PNum rat
  | PStr string
  | PList "pyval list"
  | PDict "(string \<times> pyval) list"

text \<open>
  The exceptions that the modelled code can meet. \<open>ValueError\<close> carries the message the
  source gives it; \<open>ExternalError\<close> is any exception of the model loader or of the
  classification pipeline.
\<close>

datatype exn =
    ValueError string
  | TypeError
  | AttributeError
  | KeyError
  | IndexError
  | ExternalError string

fun truthy :: "pyval \<Rightarrow> bool" where
  "truthy PNone = False"
| "truthy (PNum r) = (r \<noteq> 0)"
| "truthy (PStr s) = (s \<noteq> [])"
| "truthy (PList xs) = (xs \<noteq> [])"
| "truthy (PDict d) = (d \<noteq> [])"

fun hashable :: "pyval \<Rightarrow> bool" where
  "hashable (PList xs) = False"
| "hashable (PDict d) = False"
| "hashable v = True"

fun is_list :: "pyval \<Rightarrow> bool" where
  "is_list (PList xs) = True"
| "is_list v = False"

fun has_substr :: "string \<Rightarrow> string \<Rightarrow> bool" where
  "has_substr k [] = (k = [])"
| "has_substr k (c # cs) = (take (length k) (c # cs) = k \<or> has_substr k cs)"

text \<open>\<^verbatim>\<open>key in container\<close> for a string key.\<close>

fun py_contains :: "string \<Rightarrow> pyval \<Rightarrow> exn + bool" where
  "py_contains k (PDict d) = Inr (map_of d k \<noteq> None)"
| "py_contains k (PList xs) = Inr (PStr k \<in> set xs)"
| "py_contains k (PStr s) = Inr (has_substr k s)"
| "py_contains k v = Inl TypeError"

text \<open>\<^verbatim>\<open>container[key]\<close> for a string key.\<close>

fun py_getitem :: "pyval \<Rightarrow> string \<Rightarrow> exn + pyval" where
  "py_getitem (PDict d) k = (case map_of d k of None \<Rightarrow> Inl KeyError | Some v \<Rightarrow> Inr v)"
| "py_getitem v k = Inl TypeError"

text \<open>\<^verbatim>\<open>container.get(key, default)\<close>: only a dictionary has the method.\<close>

fun py_get :: "pyval \<Rightarrow> string \<Rightarrow> pyval \<Rightarrow> exn + pyval" where
  "py_get (PDict d) k dflt = (case map_of d k of None \<Rightarrow> Inr dflt | Some v \<Rightarrow> Inr v)"
| "py_get v k dflt = Inl AttributeError"

text \<open>\<^verbatim>\<open>for x in v\<close>: the items that the loop visits.\<close>

fun py_iter :: "pyval \<Rightarrow> exn + pyval list" where
  "py_iter (PList xs) = Inr xs"
| "py_iter (PStr s) = Inr (map (\<lambda>c. PStr [c]) s)"
| "py_iter (PDict d) = Inr (map PStr (remdups (map fst d)))"
| "py_iter v = Inl TypeError"

definition lower_char :: "char \<Rightarrow> char" where
  "lower_char c =
     (let n = (of_char c :: nat)
      in if (65 \<le> n \<and> n \<le> 90) \<or> (192 \<le> n \<and> n \<le> 222 \<and> n \<noteq> 215)
         then char_of (n + 32) else c)"

text \<open>\<^verbatim>\<open>v.lower()\<close>: only a string has the method.\<close>

fun py_lower :: "pyval \<Rightarrow> exn + string" where
  "py_lower (PStr s) = Inr (map lower_char s)"
| "py_lower v = Inl AttributeError"

definition is_space :: "char \<Rightarrow> bool" where
  "is_space c =
     (let n = (of_char c :: nat)
      in (9 \<le> n \<and> n \<le> 13) \<or> (28 \<le> n \<and> n \<le> 32) \<or> n = 133 \<or> n = 160)"

definition strip :: "string \<Rightarrow> string" where
  "strip s = rev (dropWhile is_space (rev (dropWhile is_space s)))"

section \<open>Floating-point arithmetic\<close>

text \<open>
  Python's \<^verbatim>\<open>float\<close> is the binary64 format. \<open>fl x\<close> is the binary64 number nearest
  to \<open>x\<close>, a tie going to the even significand: \<open>x\<close> is rounded to a multiple of
  \<open>pow2 (e - 52)\<close>, where \<open>pow2 e \<le> |x| < pow2 (e + 1)\<close> and \<open>e\<close> is at least -1022
  (the subnormal range). Every arithmetic operation on floats is the exact operation
  followed by \<open>fl\<close>. Overflow to infinity is not modelled. The functions work on the
  numerator and the denominator of \<open>x\<close> in lowest terms.
\<close>

definition pow2 :: "int \<Rightarrow> rat" where
  "pow2 k = (if 0 \<le> k then of_int (2 ^ nat k) else 1 / of_int (2 ^ nat (- k)))"

text \<open>
  The exponent \<open>e\<close> of \<open>a / b\<close> for positive \<open>a\<close> and \<open>b\<close>: the difference \<open>k\<close> of their
  numbers of bits is \<open>e\<close> or \<open>e + 1\<close>, and \<open>exponent_adjust\<close> decides by comparing
  \<open>pow2 k\<close> with \<open>a / b\<close>.
\<close>

definition exponent_adjust :: "int \<Rightarrow> int \<Rightarrow> int \<Rightarrow> int" where
  "exponent_adjust a b k =
     (if (if 0 \<le> k then b * 2 ^ nat k \<le> a else b \<le> a * 2 ^ nat (- k)) then k else k - 1)"

definition exponent :: "int \<Rightarrow> int \<Rightarrow> int" where
  "exponent a b = exponent_adjust a b (bitlen a - bitlen b)"

text \<open>
  \<open>round_quotient n d\<close> is the integer nearest to \<open>n / d\<close> for a positive \<open>d\<close>, a tie
  going to the even one: \<open>round_from\<close> decides from the floor \<open>f\<close> and the remainder \<open>r\<close>.
\<close>

definition round_from :: "int \<Rightarrow> int \<Rightarrow> int \<Rightarrow> int" where
  "round_from f r d =
     (if 2 * r < d then f
      else if d < 2 * r then f + 1
      else if even f then f else f + 1)"

definition round_quotient :: "int \<Rightarrow> int \<Rightarrow> int" where
  "round_quotient n d = round_from (n div d) (n mod d) d"

fun round_fraction :: "int \<times> int \<Rightarrow> int" where
  "round_fraction (n, d) = round_quotient n d"

definition round_half_even :: "rat \<Rightarrow> int" where
  "round_half_even x = round_fraction (quotient_of x)"

text \<open>
  \<^verbatim>\<open>round(x, n)\<close> rounds the exact value of the float \<open>x\<close> to the nearest multiple of
  \<open>10\<^sup>-\<^sup>n\<close>, a tie to the even one, and returns the float nearest to that decimal:
  \<open>py_round\<close> gives the decimal, \<open>float_round\<close> the float.
\<close>

definition py_round :: "rat \<Rightarrow> nat \<Rightarrow> rat" where
  "py_round x n = of_int (round_half_even (x * 10 ^ n)) / 10 ^ n"

text \<open>\<open>quantize a b s\<close> is the multiple of \<open>pow2 (- s)\<close> nearest to \<open>a / b\<close>.\<close>

definition quantize :: "int \<Rightarrow> int \<Rightarrow> int \<Rightarrow> rat" where
  "quantize a b s =
     (if 0 \<le> s then Fract (round_quotient (a * 2 ^ nat s) b) (2 ^ nat s)
      else of_int (round_quotient a (b * 2 ^ nat (- s)) * 2 ^ nat (- s)))"

fun float_of_fraction :: "int \<times> int \<Rightarrow> rat" where
  "float_of_fraction (a, b) =
     (if a = 0 then 0 else quantize a b (52 - max (exponent \<bar>a\<bar> b) (- 1022)))"

definition fl :: "rat \<Rightarrow> rat" where
  "fl x = float_of_fraction (quotient_of x)"

definition fadd :: "rat \<Rightarrow> rat \<Rightarrow> rat" where
  "fadd x y = fl (x + y)"

definition fmul :: "rat \<Rightarrow> rat \<Rightarrow> rat" where
  "fmul x y = fl (x * y)"

definition fdiv :: "rat \<Rightarrow> rat \<Rightarrow> rat" where
  "fdiv x y = fl (x / y)"

text \<open>The conversion of an \<^verbatim>\<open>int\<close> to a float, and the true division of two of them.\<close>

definition of_count :: "nat \<Rightarrow> rat" where
  "of_count n = fl (of_nat n)"

definition true_div :: "nat \<Rightarrow> nat \<Rightarrow> rat" where
  "true_div m n = fl (of_nat m / of_nat n)"

definition float_round :: "rat \<Rightarrow> nat \<Rightarrow> rat" where
  "float_round x n = fl (py_round x n)"

section \<open>The classifier of \<^verbatim>\<open>team_classifier.py\<close>\<close>

text \<open>
  The environment of one call: whether loading the models raises
  (\<^verbatim>\<open>initialize_models\<close>, \<^verbatim>\<open>load_model\<close>), and the zero-shot pipeline, which maps the
  processed text and the candidate labels to its \<^verbatim>\<open>labels\<close> and \<^verbatim>\<open>scores\<close>, or raises.
\<close>

record env =
  init_failure :: "exn option"
  pipeline :: "string \<Rightarrow> pyval \<Rightarrow> exn + (pyval list \<times> rat list)"

record judgement =
  team :: pyval
  confidence :: rat

definition no_judgment :: judgement where
  "no_judgment = \<lparr>team = PNone, confidence = 0\<rparr>"

text \<open>
  \<^verbatim>\<open>preprocess_text\<close>: \<^verbatim>\<open>""\<close> for a falsy text, else \<^verbatim>\<open>text[:512].strip()\<close>, which raises
  for every truthy value that is not a string.
\<close>

fun preprocess_text :: "pyval \<Rightarrow> exn + string" where
  "preprocess_text (PStr s) = (if s = [] then Inr [] else Inr (strip (take 512 s)))"
| "preprocess_text (PList xs) = (if xs = [] then Inr [] else Inl AttributeError)"
| "preprocess_text v = (if truthy v then Inl TypeError else Inr [])"

text \<open>\<^verbatim>\<open>np.argmax\<close>: the first position of the greatest score.\<close>

fun argmax_from :: "rat list \<Rightarrow> nat \<Rightarrow> nat \<Rightarrow> rat \<Rightarrow> nat" where
  "argmax_from [] i best m = best"
| "argmax_from (x # xs) i best m =
     (if m < x then argmax_from xs (Suc i) i x else argmax_from xs (Suc i) best m)"

definition argmax :: "rat list \<Rightarrow> nat" where
  "argmax xs = argmax_from (tl xs) 1 0 (hd xs)"

text \<open>
  \<^verbatim>\<open>TeamClassifier.classify_tweet\<close>, whose acceptance threshold is 0.5. Every exception
  inside it is caught and gives the judgement without a team: of the pipeline, of
  \<^verbatim>\<open>argmax\<close> on no scores, of \<^verbatim>\<open>labels[best_idx]\<close> out of range, and of the dictionary
  \<^verbatim>\<open>all_scores\<close> built from the zipped labels and scores when one of these labels is
  unhashable. The confidence is \<^verbatim>\<open>float(scores[best_idx])\<close>. The judgement keeps the
  team and the confidence of the result.
\<close>

definition classify_tweet :: "env \<Rightarrow> pyval \<Rightarrow> pyval \<Rightarrow> judgement" where
  "classify_tweet e text team_labels =
     (case preprocess_text text of
        Inl x \<Rightarrow> no_judgment
      | Inr processed_text \<Rightarrow>
          if processed_text = [] then no_judgment
          else (case pipeline e processed_text team_labels of
                  Inl x \<Rightarrow> no_judgment
                | Inr (labels, scores) \<Rightarrow>
                    if scores = [] then no_judgment
                    else let best_idx = argmax scores; c = fl (scores ! best_idx)
                         in if 1 / 2 \<le> c \<and> \<not> best_idx < length labels then no_judgment
                            else if \<not> list_all hashable (take (length scores) labels)
                            then no_judgment
                            else \<lparr>team = (if 1 / 2 \<le> c then labels ! best_idx else PNone),
                                  confidence = c\<rparr>))"

section \<open>The resolver of \<^verbatim>\<open>market_resolver.py\<close>\<close>

record outcome_stat =
  count_s :: nat
  confidence_sum :: rat

record tally =
  outcome_counts :: "(pyval \<times> outcome_stat) list"
  total_analyzed :: nat

record breakdown_entry =
  support_count :: nat
  support_percentage :: rat
  avg_confidence :: rat

text \<open>
  The three shapes of a result. The timestamp of each is a clock reading and is left
  out. \<open>e_error\<close> is the exception whose text the error record carries.
\<close>

record decided_rec =
  d_market_id :: pyval
  d_question :: pyval
  d_outcomes :: pyval
  d_winning_outcome :: pyval
  d_winning_index :: int
  d_confidence :: rat
  d_resolution_method :: string
  d_sentiment_breakdown :: "(pyval \<times> breakdown_entry) list"
  d_total_analyzed :: nat

record pending_rec =
  p_market_id :: pyval
  p_question :: pyval
  p_outcomes :: pyval
  p_winning_outcome :: pyval
  p_winning_index :: int
  p_confidence :: rat
  p_resolution_method :: string
  p_status :: string
  p_message :: string

record error_rec =
  e_market_id :: pyval
  e_question :: pyval
  e_outcomes :: pyval
  e_error :: exn
  e_status :: string

datatype resolution =
    Decided decided_rec
  | Pending pending_rec
  | Failed error_rec

text \<open>The threshold of the resolver, the float \<^verbatim>\<open>0.6\<close>.\<close>

definition min_confidence :: rat where
  "min_confidence = fl (6 / 10)"

definition required_fields :: "string list" where
  "required_fields = [''market_id'', ''question'', ''outcomes'', ''resolution_method'']"

fun check_fields :: "string list \<Rightarrow> pyval \<Rightarrow> exn + unit" where
  "check_fields [] md = Inr ()"
| "check_fields (f # fs) md =
     (case py_contains f md of
        Inl x \<Rightarrow> Inl x
      | Inr present \<Rightarrow>
          if \<not> present then Inl (ValueError (''Missing required field: '' @ f))
          else check_fields fs md)"

definition validate_market_data :: "pyval \<Rightarrow> exn + unit" where
  "validate_market_data md =
     (case check_fields required_fields md of
        Inl x \<Rightarrow> Inl x
      | Inr u \<Rightarrow>
          (case py_getitem md ''outcomes'' of
             Inl x \<Rightarrow> Inl x
           | Inr outs \<Rightarrow>
               (case outs of
                  PList xs \<Rightarrow>
                    if length xs < 2 then Inl (ValueError ''At least two outcomes are required'')
                    else Inr ()
                | _ \<Rightarrow> Inl (ValueError ''At least two outcomes are required''))))"

definition pending_resolution :: "pyval \<Rightarrow> string \<Rightarrow> string \<Rightarrow> exn + resolution" where
  "pending_resolution md method message =
     (case py_get md ''market_id'' (PStr []) of
        Inl x \<Rightarrow> Inl x
      | Inr mid \<Rightarrow>
     (case py_get md ''question'' (PStr []) of
        Inl x \<Rightarrow> Inl x
      | Inr q \<Rightarrow>
     (case py_get md ''outcomes'' (PList []) of
        Inl x \<Rightarrow> Inl x
      | Inr outs \<Rightarrow>
          Inr (Pending \<lparr>p_market_id = mid, p_question = q, p_outcomes = outs,
                 p_winning_outcome = PNone, p_winning_index = - 1, p_confidence = 0,
                 p_resolution_method = method, p_status = ''pending'',
                 p_message = message\<rparr>))))"

definition default_message :: string where
  "default_message = ''Pending manual resolution''"

definition create_error_response :: "pyval \<Rightarrow> exn \<Rightarrow> exn + resolution" where
  "create_error_response md err =
     (case py_get md ''market_id'' (PStr ''unknown'') of
        Inl x \<Rightarrow> Inl x
      | Inr mid \<Rightarrow>
     (case py_get md ''question'' (PStr []) of
        Inl x \<Rightarrow> Inl x
      | Inr q \<Rightarrow>
     (case py_get md ''outcomes'' (PList []) of
        Inl x \<Rightarrow> Inl x
      | Inr outs \<Rightarrow>
          Inr (Failed \<lparr>e_market_id = mid, e_question = q, e_outcomes = outs,
                 e_error = err, e_status = ''error''\<rparr>))))"

text \<open>
  The dictionary comprehension over the outcomes: one entry per distinct outcome, at the
  place of its first occurrence. \<open>AList.update\<close> overwrites a key where it stands and
  appends a new one, as a Python \<^verbatim>\<open>dict\<close> does.
\<close>

definition zero_stat :: outcome_stat where
  "zero_stat = \<lparr>count_s = 0, confidence_sum = 0\<rparr>"

definition init_outcome_counts :: "pyval list \<Rightarrow> (pyval \<times> outcome_stat) list" where
  "init_outcome_counts outs = fold (\<lambda>outcome d. AList.update outcome zero_stat d) outs []"

text \<open>
  Lines 102 to 106: the test of the threshold and of membership, and the three updates.
  \<^verbatim>\<open>and\<close> evaluates the membership test only when the threshold is met; the test
  raises for an unhashable team.
\<close>

definition tally_judgment :: "judgement \<Rightarrow> tally \<Rightarrow> exn + tally" where
  "tally_judgment j t =
     (if min_confidence \<le> confidence j
      then (if \<not> hashable (team j) then Inl TypeError
            else (case map_of (outcome_counts t) (team j) of
                    None \<Rightarrow> Inr t
                  | Some s \<Rightarrow>
                      Inr \<lparr>outcome_counts =
                             AList.update (team j)
                               \<lparr>count_s = count_s s + 1,
                                confidence_sum = fadd (confidence_sum s) (confidence j)\<rparr>
                               (outcome_counts t),
                           total_analyzed = total_analyzed t + 1\<rparr>))
      else Inr t)"

text \<open>
  The \<^verbatim>\<open>try\<close> block around them (lines 95 to 109): an exception is logged and leaves
  the tally as it was.
\<close>

definition tally_or_skip :: "judgement \<Rightarrow> tally \<Rightarrow> tally" where
  "tally_or_skip j t = (case tally_judgment j t of Inl x \<Rightarrow> t | Inr t' \<Rightarrow> t')"

text \<open>
  The body of the loop over the reply tweets: a tweet that is no dictionary or has no
  \<^verbatim>\<open>text\<close> is skipped.
\<close>

definition process_tweet :: "env \<Rightarrow> pyval \<Rightarrow> pyval \<Rightarrow> tally \<Rightarrow> tally" where
  "process_tweet e outcomes tweet t =
     (case tweet of
        PDict d \<Rightarrow>
          (case map_of d ''text'' of
             None \<Rightarrow> t
           | Some text \<Rightarrow> tally_or_skip (classify_tweet e text outcomes) t)
      | _ \<Rightarrow> t)"

record winner_state =
  sentiment_breakdown :: "(pyval \<times> breakdown_entry) list"
  max_count :: nat
  winning_outcome :: pyval

definition breakdown_of :: "outcome_stat \<Rightarrow> nat \<Rightarrow> breakdown_entry" where
  "breakdown_of data tot =
     \<lparr>support_count = count_s data,
      support_percentage =
        (if 0 < tot then float_round (fmul (true_div (count_s data) tot) 100) 2 else 0),
      avg_confidence =
        (if 0 < count_s data
         then float_round (fdiv (confidence_sum data) (of_count (count_s data))) 4
         else 0)\<rparr>"

text \<open>
  The loop over \<^verbatim>\<open>outcome_counts.items()\<close> (lines 120 to 138); \<open>oc\<close> is the whole
  dictionary, which the tie-break reads at the current winner.
\<close>

fun winner_loop ::
  "(pyval \<times> outcome_stat) list \<Rightarrow> nat \<Rightarrow> (pyval \<times> outcome_stat) list \<Rightarrow> winner_state
     \<Rightarrow> exn + winner_state" where
  "winner_loop oc tot [] st = Inr st"
| "winner_loop oc tot ((outcome, data) # rest) st =
     (let count = count_s data;
          bd = AList.update outcome (breakdown_of data tot) (sentiment_breakdown st)
      in if max_count st < count
         then winner_loop oc tot rest
                \<lparr>sentiment_breakdown = bd, max_count = count, winning_outcome = outcome\<rparr>
         else if count = max_count st \<and> 0 < max_count st
         then (case map_of oc (winning_outcome st) of
                 None \<Rightarrow> Inl KeyError
               | Some wdata \<Rightarrow>
                   let current_confidence =
                         (if 0 < count then fdiv (confidence_sum data) (of_count count)
                          else 0);
                       winning_confidence =
                         (if 0 < max_count st
                          then fdiv (confidence_sum wdata) (of_count (max_count st)) else 0)
                   in winner_loop oc tot rest
                        \<lparr>sentiment_breakdown = bd, max_count = max_count st,
                         winning_outcome =
                           (if winning_confidence < current_confidence then outcome
                            else winning_outcome st)\<rparr>)
         else winner_loop oc tot rest
                \<lparr>sentiment_breakdown = bd, max_count = max_count st,
                 winning_outcome = winning_outcome st\<rparr>)"

text \<open>\<^verbatim>\<open>xs.index(v)\<close>: the first position of \<open>v\<close>, or \<^verbatim>\<open>ValueError\<close>.\<close>

fun index_from :: "pyval list \<Rightarrow> pyval \<Rightarrow> int \<Rightarrow> exn + int" where
  "index_from [] v i = Inl (ValueError ''not in list'')"
| "index_from (x # xs) v i = (if x = v then Inr i else index_from xs v (i + 1))"

definition no_tweets_message :: string where
  "no_tweets_message = ''No valid tweets could be analyzed for sentiment''"

definition insufficient_message :: string where
  "insufficient_message = ''Insufficient data for sentiment analysis''"

text \<open>
  Lines 111 to 166 of \<^verbatim>\<open>_resolve_by_sentiment\<close>: from the tally of the loop over the
  replies to the result. \<open>outs\<close> are the outcomes of the market.
\<close>

definition sentiment_result :: "pyval \<Rightarrow> pyval list \<Rightarrow> tally \<Rightarrow> exn + resolution" where
  "sentiment_result md outs t =
     (if total_analyzed t = 0 then Inl (ValueError no_tweets_message)
      else
     (case winner_loop (outcome_counts t) (total_analyzed t) (outcome_counts t)
             \<lparr>sentiment_breakdown = [], max_count = 0, winning_outcome = PNone\<rparr> of
        Inl x \<Rightarrow> Inl x
      | Inr w \<Rightarrow>
          if max_count w = 0
          then pending_resolution md ''sentiment'' insufficient_message
          else
         (case (if truthy (winning_outcome w)
                then index_from outs (winning_outcome w) 0 else Inr (- 1)) of
            Inl x \<Rightarrow> Inl x
          | Inr winning_index \<Rightarrow>
         (case py_getitem md ''market_id'' of
            Inl x \<Rightarrow> Inl x
          | Inr mid \<Rightarrow>
         (case py_getitem md ''question'' of
            Inl x \<Rightarrow> Inl x
          | Inr q \<Rightarrow>
              Inr (Decided
                \<lparr>d_market_id = mid, d_question = q, d_outcomes = PList outs,
                 d_winning_outcome = winning_outcome w,
                 d_winning_index = winning_index,
                 d_confidence =
                   float_round (true_div (max_count w) (total_analyzed t)) 4,
                 d_resolution_method = ''sentiment'',
                 d_sentiment_breakdown = sentiment_breakdown w,
                 d_total_analyzed = total_analyzed t\<rparr>))))))"

text \<open>
  \<^verbatim>\<open>_resolve_by_sentiment\<close>. It is called after validation only, when the outcomes are
  a list; for any other value this model stops with \<open>TypeError\<close>.
\<close>

definition resolve_by_sentiment :: "env \<Rightarrow> pyval \<Rightarrow> exn + resolution" where
  "resolve_by_sentiment e md =
     (case init_failure e of
        Some x \<Rightarrow> Inl x
      | None \<Rightarrow>
     (case py_getitem md ''outcomes'' of
        Inl x \<Rightarrow> Inl x
      | Inr outcomes \<Rightarrow>
     (case outcomes of
        PList outs \<Rightarrow>
          if \<not> list_all hashable outs then Inl TypeError
          else
         (case py_get md ''reply_tweets'' (PList []) of
            Inl x \<Rightarrow> Inl x
          | Inr replies \<Rightarrow>
         (case py_iter replies of
            Inl x \<Rightarrow> Inl x
          | Inr tweets \<Rightarrow>
              sentiment_result md outs
                (fold (process_tweet e outcomes) tweets
                   \<lparr>outcome_counts = init_outcome_counts outs, total_analyzed = 0\<rparr>)))
      | _ \<Rightarrow> Inl TypeError)))"

text \<open>The \<^verbatim>\<open>try\<close> block of \<^verbatim>\<open>resolve_market\<close>.\<close>

definition resolve_market_body :: "env \<Rightarrow> pyval \<Rightarrow> exn + resolution" where
  "resolve_market_body e md =
     (case validate_market_data md of
        Inl x \<Rightarrow> Inl x
      | Inr u \<Rightarrow>
     (case py_get md ''resolution_method'' (PStr ''sentiment'') of
        Inl x \<Rightarrow> Inl x
      | Inr rm \<Rightarrow>
     (case py_lower rm of
        Inl x \<Rightarrow> Inl x
      | Inr resolution_method \<Rightarrow>
          if resolution_method = ''sentiment'' then resolve_by_sentiment e md
          else if resolution_method = ''oracle''
          then pending_resolution md ''oracle'' default_message
          else if resolution_method = ''manual''
          then pending_resolution md ''manual'' default_message
          else Inl (ValueError (''Unsupported resolution method: '' @ resolution_method)))))"

text \<open>
  \<^verbatim>\<open>MarketResolver.resolve_market\<close>: \<open>Inr\<close> is the record returned, \<open>Inl\<close> an exception
  that leaves the method. The handler builds the error record with \<^verbatim>\<open>market_data.get\<close>.
\<close>

definition resolve_market :: "env \<Rightarrow> pyval \<Rightarrow> exn + resolution" where
  "resolve_market e md =
     (case resolve_market_body e md of
        Inl err \<Rightarrow> create_error_response md err
      | Inr r \<Rightarrow> Inr r)"

section \<open>\<^verbatim>\<open>classify_teams\<close> of \<^verbatim>\<open>team_classifier.py\<close>\<close>

text \<open>
  The function from the parsed input on; reading and parsing the input stream is left
  out. \<open>sup_tweet_id\<close> holds the value whose \<^verbatim>\<open>str()\<close> the source stores.
\<close>

record supporter =
  sup_tweet_id :: pyval
  sup_author :: pyval
  sup_text :: pyval
  sup_confidence :: rat

record team_stat =
  ts_count :: nat
  ts_percentage :: rat
  ts_avg_confidence :: rat
  ts_confidence_sum :: rat
  ts_supporters :: "supporter list"

text \<open>The statistics of a team as reported, after \<^verbatim>\<open>confidence_sum\<close> is popped.\<close>

record team_report =
  tr_count :: nat
  tr_percentage :: rat
  tr_avg_confidence :: rat
  tr_supporters :: "supporter list"

record teams_result =
  r_controversy :: pyval
  r_winning_team :: pyval
  r_team_stats :: "(pyval \<times> team_report) list"
  r_total_classified :: nat
  r_unclassified_count :: nat

record teams_failure =
  f_error :: exn
  f_controversy :: pyval

datatype teams_output =
    Classified teams_result
  | Unclassified teams_failure

definition empty_stat :: team_stat where
  "empty_stat = \<lparr>ts_count = 0, ts_percentage = 0, ts_avg_confidence = 0,
                  ts_confidence_sum = 0, ts_supporters = []\<rparr>"

definition init_team_stats :: "pyval list \<Rightarrow> (pyval \<times> team_stat) list" where
  "init_team_stats labels = fold (\<lambda>team d. AList.update team empty_stat d) labels []"

definition dict_get :: "(string \<times> pyval) list \<Rightarrow> string \<Rightarrow> pyval \<Rightarrow> pyval" where
  "dict_get d k dflt = (case map_of d k of None \<Rightarrow> dflt | Some v \<Rightarrow> v)"

text \<open>
  The body of the loop over the tweets (lines 141 to 165). The membership test is
  reached for a truthy team only and raises for an unhashable one; nothing catches it
  inside the loop.
\<close>

definition team_step ::
  "env \<Rightarrow> pyval \<Rightarrow> pyval \<Rightarrow> (pyval \<times> team_stat) list \<times> nat
     \<Rightarrow> exn + (pyval \<times> team_stat) list \<times> nat" where
  "team_step e team_labels tweet st =
     (case tweet of
        PDict d \<Rightarrow>
          (case map_of d ''text'' of
             None \<Rightarrow> Inr st
           | Some text \<Rightarrow>
               let tweet_id = dict_get d ''id'' (PStr []);
                   author = dict_get d ''author'' (PStr ''unknown'');
                   result = classify_tweet e text team_labels
               in if truthy (team result)
                  then (if \<not> hashable (team result) then Inl TypeError
                        else (case map_of (fst st) (team result) of
                                None \<Rightarrow> Inr (fst st, snd st + 1)
                              | Some s \<Rightarrow>
                                  Inr (AList.update (team result)
                                         (s\<lparr>ts_count := ts_count s + 1,
                                            ts_confidence_sum :=
                                              fadd (ts_confidence_sum s) (confidence result),
                                            ts_supporters :=
                                              ts_supporters s @
                                                [\<lparr>sup_tweet_id = tweet_id, sup_author = author,
                                                  sup_text = text,
                                                  sup_confidence = confidence result\<rparr>]\<rparr>)
                                         (fst st),
                                       snd st)))
                  else Inr (fst st, snd st + 1))
      | _ \<Rightarrow> Inr st)"

fun team_loop ::
  "env \<Rightarrow> pyval \<Rightarrow> pyval list \<Rightarrow> (pyval \<times> team_stat) list \<times> nat
     \<Rightarrow> exn + (pyval \<times> team_stat) list \<times> nat" where
  "team_loop e team_labels [] st = Inr st"
| "team_loop e team_labels (tweet # tweets) st =
     (case team_step e team_labels tweet st of
        Inl x \<Rightarrow> Inl x
      | Inr st' \<Rightarrow> team_loop e team_labels tweets st')"

text \<open>
  The loop over \<^verbatim>\<open>team_stats.items()\<close> (lines 173 to 183), which stores the percentage
  and the mean confidence of each team and tracks the winning team.
\<close>

fun percentage_loop ::
  "nat \<Rightarrow> pyval list \<Rightarrow> (pyval \<times> team_stat) list \<times> pyval
     \<Rightarrow> exn + (pyval \<times> team_stat) list \<times> pyval" where
  "percentage_loop tot [] st = Inr st"
| "percentage_loop tot (tm # teams) (stats, winning_team) =
     (case map_of stats tm of
        None \<Rightarrow> Inl KeyError
      | Some s \<Rightarrow>
          let s' = s\<lparr>ts_percentage := fmul (true_div (ts_count s) tot) 100,
                     ts_avg_confidence :=
                       (if 0 < ts_count s
                        then fdiv (ts_confidence_sum s) (of_count (ts_count s))
                        else 0)\<rparr>;
              stats' = AList.update tm s' stats
          in if 1 / 2 \<le> fdiv (ts_percentage s') 100
             then (if winning_team = PNone
                   then percentage_loop tot teams (stats', tm)
                   else (case map_of stats' winning_team of
                           None \<Rightarrow> Inl KeyError
                         | Some w \<Rightarrow>
                             if ts_percentage w < ts_percentage s'
                             then percentage_loop tot teams (stats', tm)
                             else percentage_loop tot teams (stats', winning_team)))
             else percentage_loop tot teams (stats', winning_team))"

text \<open>
  Lines 190 to 196: \<^verbatim>\<open>sort(key=..., reverse=True)\<close> is a stable sort into descending
  order, which is the stable sort by the negated key; then the first 100 are kept.
\<close>

definition top_supporters :: "supporter list \<Rightarrow> supporter list" where
  "top_supporters sups = take 100 (sort_key (\<lambda>x. - sup_confidence x) sups)"

definition report_of :: "team_stat \<Rightarrow> team_report" where
  "report_of s =
     \<lparr>tr_count = ts_count s, tr_percentage = ts_percentage s,
      tr_avg_confidence = ts_avg_confidence s,
      tr_supporters = top_supporters (ts_supporters s)\<rparr>"

definition invalid_format_message :: string where
  "invalid_format_message = ''Invalid input format. Expected keys: controversy, teams, tweets''"

text \<open>The \<^verbatim>\<open>try\<close> block of \<^verbatim>\<open>classify_teams\<close>, after the input is parsed.\<close>

definition classify_teams_body :: "env \<Rightarrow> pyval \<Rightarrow> exn + teams_result" where
  "classify_teams_body e data =
     (case data of
        PDict d \<Rightarrow>
          if map_of d ''controversy'' = None \<or> map_of d ''teams'' = None
             \<or> map_of d ''tweets'' = None
          then Inl (ValueError invalid_format_message)
          else
         (case (dict_get d ''teams'' PNone, dict_get d ''tweets'' PNone) of
            (PList team_labels, PList tweets) \<Rightarrow>
              if length team_labels < 2
              then Inl (ValueError ''At least two team labels are required'')
              else
             (case init_failure e of
                Some x \<Rightarrow> Inl x
              | None \<Rightarrow>
                  if \<not> list_all hashable team_labels then Inl TypeError
                  else
                 (case team_loop e (PList team_labels) tweets
                         (init_team_stats team_labels, 0) of
                    Inl x \<Rightarrow> Inl x
                  | Inr (team_stats, unclassified_count) \<Rightarrow>
                      let total_classified = sum_list (map (\<lambda>kv. ts_count (snd kv)) team_stats)
                      in (case (if 0 < total_classified
                                then percentage_loop total_classified (map fst team_stats)
                                       (team_stats, PNone)
                                else Inr (team_stats, PNone)) of
                            Inl x \<Rightarrow> Inl x
                          | Inr (team_stats', winning_team) \<Rightarrow>
                              Inr \<lparr>r_controversy = dict_get d ''controversy'' PNone,
                                   r_winning_team =
                                     (if truthy winning_team then winning_team
                                      else PStr ''Undecided''),
                                   r_team_stats =
                                     map (\<lambda>kv. (fst kv, report_of (snd kv))) team_stats',
                                   r_total_classified = total_classified,
                                   r_unclassified_count = unclassified_count\<rparr>)))
          | (PList team_labels, other) \<Rightarrow>
              if length team_labels < 2
              then Inl (ValueError ''At least two team labels are required'')
              else Inl (ValueError ''Tweets must be a list'')
          | (other, tweets) \<Rightarrow> Inl (ValueError ''At least two team labels are required''))
      | _ \<Rightarrow> Inl (ValueError invalid_format_message))"

text \<open>
  \<^verbatim>\<open>classify_teams\<close>: the handler reads the controversy with \<^verbatim>\<open>data.get\<close>, which
  raises for an input that is no dictionary.
\<close>

definition classify_teams :: "env \<Rightarrow> pyval \<Rightarrow> exn + teams_output" where
  "classify_teams e data =
     (case classify_teams_body e data of
        Inr r \<Rightarrow> Inr (Classified r)
      | Inl err \<Rightarrow>
          (case py_get data ''controversy'' (PStr []) of
             Inl x \<Rightarrow> Inl x
           | Inr c \<Rightarrow> Inr (Unclassified \<lparr>f_error = err, f_controversy = c\<rparr>)))"

section \<open>Notions used in the statements\<close>

text \<open>
  The mean confidence of an outcome as the code computes it: the float quotient of its
  sum of confidences by its count.
\<close>

definition mean_confidence :: "outcome_stat \<Rightarrow> rat" where
  "mean_confidence s = fdiv (confidence_sum s) (of_count (count_s s))"

text \<open>
  The tally that \<open>resolve_by_sentiment\<close> holds after its loop over the replies, for
  the outcomes \<open>outs\<close> and the replies \<open>tweets\<close>.
\<close>

definition final_tally :: "env \<Rightarrow> pyval list \<Rightarrow> pyval list \<Rightarrow> tally" where
  "final_tally e outs tweets =
     fold (process_tweet e (PList outs)) tweets
       \<lparr>outcome_counts = init_outcome_counts outs, total_analyzed = 0\<rparr>"

text \<open>
  The judgement that the loop obtains for a reply: none for a reply that is no
  dictionary or has no \<^verbatim>\<open>text\<close>. A reply is accepted for the outcome \<open>k\<close> when its
  judgement has a confidence of at least the threshold and the team \<open>k\<close>.
\<close>

definition judgement_of :: "env \<Rightarrow> pyval list \<Rightarrow> pyval \<Rightarrow> judgement option" where
  "judgement_of e outs tweet =
     (case tweet of
        PDict d \<Rightarrow>
          (case map_of d ''text'' of
             None \<Rightarrow> None
           | Some text \<Rightarrow> Some (classify_tweet e text (PList outs)))
      | _ \<Rightarrow> None)"

definition accepted_for :: "env \<Rightarrow> pyval list \<Rightarrow> pyval \<Rightarrow> pyval \<Rightarrow> bool" where
  "accepted_for e outs k tweet =
     (case judgement_of e outs tweet of
        None \<Rightarrow> False
      | Some j \<Rightarrow> min_confidence \<le> confidence j \<and> team j = k)"

text \<open>The counts of a dictionary of counts, and the supports of a breakdown.\<close>

definition counts_of :: "(pyval \<times> outcome_stat) list \<Rightarrow> (pyval \<times> nat) list" where
  "counts_of oc = map (\<lambda>kv. (fst kv, count_s (snd kv))) oc"

definition supports_of :: "(pyval \<times> breakdown_entry) list \<Rightarrow> (pyval \<times> nat \<times> rat) list" where
  "supports_of bd = map (\<lambda>kv. (fst kv, support_count (snd kv), support_percentage (snd kv))) bd"

text \<open>
  What two results have in common when they differ at most in the sums of the
  confidences. Two decided records agree in everything but the winning outcome, its
  index and the mean confidences, and their winning outcomes have the same support
  count; a result that is no decided record is the same.
\<close>

definition same_supports :: "decided_rec \<Rightarrow> decided_rec \<Rightarrow> bool" where
  "same_supports r r' =
     (d_market_id r' = d_market_id r \<and> d_question r' = d_question r \<and>
      d_outcomes r' = d_outcomes r \<and> d_resolution_method r' = d_resolution_method r \<and>
      d_total_analyzed r' = d_total_analyzed r \<and> d_confidence r' = d_confidence r \<and>
      supports_of (d_sentiment_breakdown r') = supports_of (d_sentiment_breakdown r) \<and>
      (case (map_of (d_sentiment_breakdown r) (d_winning_outcome r),
             map_of (d_sentiment_breakdown r') (d_winning_outcome r')) of
         (Some b, Some b') \<Rightarrow> support_count b' = support_count b
       | _ \<Rightarrow> False))"

definition same_up_to_ties :: "exn + resolution \<Rightarrow> exn + resolution \<Rightarrow> bool" where
  "same_up_to_ties x y =
     (case x of
        Inr (Decided r) \<Rightarrow> (case y of Inr (Decided r') \<Rightarrow> same_supports r r' | _ \<Rightarrow> False)
      | _ \<Rightarrow> y = x)"

text \<open>
  An entry of the dictionary of counts is beaten by another when its count is smaller,
  or the counts are equal and its mean confidence is smaller; it does not beat the
  other when its count is smaller, or the counts are equal and its mean confidence is
  not greater.
\<close>

definition beaten_by :: "outcome_stat \<Rightarrow> outcome_stat \<Rightarrow> bool" where
  "beaten_by s w =
     (count_s s < count_s w \<or>
      (count_s s = count_s w \<and> mean_confidence s < mean_confidence w))"

definition not_beating :: "outcome_stat \<Rightarrow> outcome_stat \<Rightarrow> bool" where
  "not_beating s w =
     (count_s s < count_s w \<or>
      (count_s s = count_s w \<and> mean_confidence s \<le> mean_confidence w))"

text \<open>
  The invariant of the loop over the dictionary of counts, after the entries \<open>pre\<close>:
  the breakdown has one entry for each of them; when the greatest count so far is 0
  all their counts are 0, and otherwise the winning outcome is the first of them that
  no other beats: the ones before it are beaten by it, the ones after it do not beat
  it.
\<close>

definition winner_inv :: "nat \<Rightarrow> (pyval \<times> outcome_stat) list \<Rightarrow> winner_state \<Rightarrow> bool" where
  "winner_inv tot pre st =
     (sentiment_breakdown st = map (\<lambda>kv. (fst kv, breakdown_of (snd kv) tot)) pre \<and>
      (if max_count st = 0 then list_all (\<lambda>kv. count_s (snd kv) = 0) pre
       else (\<exists>p1 wd p2.
               pre = p1 @ (winning_outcome st, wd) # p2 \<and> count_s wd = max_count st \<and>
               list_all (\<lambda>kv. beaten_by (snd kv) wd) p1 \<and>
               list_all (\<lambda>kv. not_beating (snd kv) wd) p2)))"

text \<open>The three updates of an accepted judgement, for the team \<open>k\<close> and confidence \<open>c\<close>.\<close>

definition bump :: "pyval \<Rightarrow> rat \<Rightarrow> tally \<Rightarrow> tally" where
  "bump k c t =
     (case map_of (outcome_counts t) k of
        None \<Rightarrow> t
      | Some s \<Rightarrow>
          \<lparr>outcome_counts = AList.update k
              \<lparr>count_s = count_s s + 1, confidence_sum = fadd (confidence_sum s) c\<rparr>
              (outcome_counts t),
           total_analyzed = total_analyzed t + 1\<rparr>)"

text \<open>The sum of the counts of a dictionary of counts.\<close>

definition sum_counts :: "(pyval \<times> outcome_stat) list \<Rightarrow> nat" where
  "sum_counts oc = sum_list (map (\<lambda>kv. count_s (snd kv)) oc)"

text \<open>The sum of the support percentages of a decided record.\<close>

definition percentage_total :: "decided_rec \<Rightarrow> rat" where
  "percentage_total r =
     sum_list (map (\<lambda>kv. support_percentage (snd kv)) (d_sentiment_breakdown r))"

text \<open>
  The qualifying items of a team in \<open>classify_teams\<close>: the supporter entries of the
  tweets that have a text and that the classifier assigns to the team, in the order of
  the tweets.
\<close>

definition qualifying_one :: "env \<Rightarrow> pyval \<Rightarrow> pyval \<Rightarrow> pyval \<Rightarrow> supporter list" where
  "qualifying_one e team_labels tm tweet =
     (case tweet of
        PDict d \<Rightarrow>
          (case map_of d ''text'' of
             None \<Rightarrow> []
           | Some text \<Rightarrow>
               let result = classify_tweet e text team_labels
               in if truthy (team result) \<and> team result = tm
                  then [\<lparr>sup_tweet_id = dict_get d ''id'' (PStr []),
                         sup_author = dict_get d ''author'' (PStr ''unknown''),
                         sup_text = text, sup_confidence = confidence result\<rparr>]
                  else [])
      | _ \<Rightarrow> [])"

definition qualifying :: "env \<Rightarrow> pyval \<Rightarrow> pyval \<Rightarrow> pyval list \<Rightarrow> supporter list" where
  "qualifying e team_labels tm tweets = concat (map (qualifying_one e team_labels tm) tweets)"

section \<open>Concrete inputs\<close>

text \<open>A pipeline that answers from a table of texts and raises for any other text.\<close>

definition table_pipeline ::
  "(string \<times> pyval list \<times> rat list) list \<Rightarrow> string \<Rightarrow> pyval
     \<Rightarrow> exn + (pyval list \<times> rat list)" where
  "table_pipeline tbl txt labels =
     (case map_of tbl txt of None \<Rightarrow> Inl (ExternalError ''no answer'') | Some r \<Rightarrow> Inr r)"

definition table_env :: "(string \<times> pyval list \<times> rat list) list \<Rightarrow> env" where
  "table_env tbl = \<lparr>init_failure = None, pipeline = table_pipeline tbl\<rparr>"

text \<open>An environment whose models cannot be loaded.\<close>

definition unavailable_env :: env where
  "unavailable_env =
     \<lparr>init_failure = Some (ExternalError ''model''),
      pipeline = (\<lambda>txt labels. Inl (ExternalError ''model''))\<rparr>"

definition market :: "pyval \<Rightarrow> pyval \<Rightarrow> pyval list \<Rightarrow> string \<Rightarrow> pyval list \<Rightarrow> pyval" where
  "market mid q outs m replies =
     PDict [(''market_id'', mid), (''question'', q), (''outcomes'', PList outs),
            (''resolution_method'', PStr m), (''reply_tweets'', PList replies)]"

definition market_fields ::
  "pyval \<Rightarrow> pyval \<Rightarrow> pyval list \<Rightarrow> string \<Rightarrow> pyval list \<Rightarrow> (string \<times> pyval) list" where
  "market_fields mid q outs m replies =
     [(''market_id'', mid), (''question'', q), (''outcomes'', PList outs),
      (''resolution_method'', PStr m), (''reply_tweets'', PList replies)]"

definition reply :: "string \<Rightarrow> pyval" where
  "reply s = PDict [(''id'', PStr s), (''text'', PStr s), (''author'', PStr ''someone'')]"

definition yes_no :: "pyval list" where
  "yes_no = [PStr ''Yes'', PStr ''No'']"

text \<open>
  The scenario of five accepted replies: Yes at 0.9, 0.8 and 0.7, No at 0.75 and 0.65.
\<close>

definition five_table :: "(string \<times> pyval list \<times> rat list) list" where
  "five_table =
     [(''y90'', yes_no, [9 / 10, 1 / 10]),
      (''y80'', yes_no, [8 / 10, 2 / 10]),
      (''y70'', yes_no, [7 / 10, 3 / 10]),
      (''n75'', yes_no, [25 / 100, 75 / 100]),
      (''n65'', yes_no, [35 / 100, 65 / 100])]"

definition five_replies :: "pyval list" where
  "five_replies = map reply [''y90'', ''n75'', ''y80'', ''n65'', ''y70'']"

text \<open>
  Replies none of which is accepted: no text, a text of blanks, a reply that is no
  dictionary, one classified below 0.5 and one classified Yes at 0.55.
\<close>

definition weak_table :: "(string \<times> pyval list \<times> rat list) list" where
  "weak_table =
     [(''unsure'', [PStr ''Yes'', PStr ''No'', PStr ''Maybe''], [4 / 10, 35 / 100, 25 / 100]),
      (''rather yes'', [PStr ''Yes'', PStr ''No'', PStr ''Maybe''], [55 / 100, 3 / 10, 15 / 100])]"

definition weak_replies :: "pyval list" where
  "weak_replies =
     [PDict [(''id'', PStr ''1'')], reply ''   '', PStr ''junk'', reply ''unsure'',
      reply ''rather yes'']"

definition weak_market :: pyval where
  "weak_market =
     market (PStr ''m1'') (PStr ''q'') [PStr ''Yes'', PStr ''No'', PStr ''Maybe'']
       ''sentiment'' weak_replies"

text \<open>A market whose first outcome is the empty string, and one reply classified as it.\<close>

definition blank_table :: "(string \<times> pyval list \<times> rat list) list" where
  "blank_table = [(''first'', [PStr [], PStr ''No''], [9 / 10, 1 / 10])]"

definition blank_market :: pyval where
  "blank_market =
     market (PStr ''m1'') (PStr ''q'') [PStr [], PStr ''No''] ''sentiment'' [reply ''first'']"

text \<open>
  Two outcomes with three accepted replies each, at 0.7, 0.8 and 0.9. In the first
  sequence of replies those of X arrive in ascending order of confidence and those of
  Y in descending order; in the second both arrive in descending order.
\<close>

definition xy :: "pyval list" where
  "xy = [PStr ''X'', PStr ''Y'']"

definition xy_table :: "(string \<times> pyval list \<times> rat list) list" where
  "xy_table =
     [(''x70'', xy, [7 / 10, 3 / 10]),
      (''x80'', xy, [8 / 10, 2 / 10]),
      (''x90'', xy, [9 / 10, 1 / 10]),
      (''y70'', xy, [3 / 10, 7 / 10]),
      (''y80'', xy, [2 / 10, 8 / 10]),
      (''y90'', xy, [1 / 10, 9 / 10])]"

definition xy_replies :: "pyval list" where
  "xy_replies = map reply [''x70'', ''x80'', ''x90'', ''y90'', ''y80'', ''y70'']"

definition xy_replies_reordered :: "pyval list" where
  "xy_replies_reordered = map reply [''x90'', ''x80'', ''x70'', ''y90'', ''y80'', ''y70'']"

definition xy_fields :: "pyval list \<Rightarrow> (string \<times> pyval) list" where
  "xy_fields replies =
     (''reply_tweets'', PList replies) #
     market_fields (PStr ''m1'') (PStr ''q'') xy ''sentiment'' []"

definition xy_record :: "pyval \<Rightarrow> int \<Rightarrow> decided_rec" where
  "xy_record winner index =
     \<lparr>d_market_id = PStr ''m1'', d_question = PStr ''q'', d_outcomes = PList xy,
      d_winning_outcome = winner, d_winning_index = index,
      d_confidence = 1 / 2, d_resolution_method = ''sentiment'',
      d_sentiment_breakdown =
        [(PStr ''X'',
          \<lparr>support_count = 3, support_percentage = 50, avg_confidence = fl (8 / 10)\<rparr>),
         (PStr ''Y'',
          \<lparr>support_count = 3, support_percentage = 50, avg_confidence = fl (8 / 10)\<rparr>)],
      d_total_analyzed = 6\<rparr>"

text \<open>
  Three outcomes and three accepted replies: one for A at 0.65625, two for B at 0.7
  and 0.9, none for C.
\<close>

definition abc :: "pyval list" where
  "abc = [PStr ''A'', PStr ''B'', PStr ''C'']"

definition thirds_table :: "(string \<times> pyval list \<times> rat list) list" where
  "thirds_table =
     [(''a1'', abc, [21 / 32, 1 / 4, 3 / 32]),
      (''b1'', abc, [2 / 10, 7 / 10, 1 / 10]),
      (''b2'', abc, [5 / 100, 9 / 10, 5 / 100])]"

definition thirds_replies :: "pyval list" where
  "thirds_replies = map reply [''b1'', ''a1'', ''b2'']"

definition thirds_fields :: "(string \<times> pyval) list" where
  "thirds_fields = market_fields (PStr ''m1'') (PStr ''q'') abc ''sentiment'' thirds_replies"

definition thirds_record :: decided_rec where
  "thirds_record =
     \<lparr>d_market_id = PStr ''m1'', d_question = PStr ''q'', d_outcomes = PList abc,
      d_winning_outcome = PStr ''B'', d_winning_index = 1,
      d_confidence = fl (6667 / 10000), d_resolution_method = ''sentiment'',
      d_sentiment_breakdown =
        [(PStr ''A'',
          \<lparr>support_count = 1, support_percentage = fl (3333 / 100),
           avg_confidence = fl (6562 / 10000)\<rparr>),
         (PStr ''B'',
          \<lparr>support_count = 2, support_percentage = fl (6667 / 100),
           avg_confidence = fl (8 / 10)\<rparr>),
         (PStr ''C'',
          \<lparr>support_count = 0, support_percentage = 0, avg_confidence = 0\<rparr>)],
      d_total_analyzed = 3\<rparr>"

text \<open>
  A market one of whose outcomes is \<open>None\<close>, and one reply for which the pipeline
  answers the label \<open>None\<close> at 0.9.
\<close>

definition none_table :: "(string \<times> pyval list \<times> rat list) list" where
  "none_table = [(''first'', [PNone, PStr ''No''], [9 / 10, 1 / 10])]"

text \<open>
  Thirty-one outcomes and one reply for each, which a pipeline that takes every text
  for the name of its outcome accepts at confidence 0.875.
\<close>

definition many_names :: "string list" where
  "many_names =
     [''c01'', ''c02'', ''c03'', ''c04'', ''c05'', ''c06'', ''c07'', ''c08'', ''c09'', ''c10'', ''c11'',
      ''c12'', ''c13'', ''c14'', ''c15'', ''c16'', ''c17'', ''c18'', ''c19'', ''c20'', ''c21'', ''c22'',
      ''c23'', ''c24'', ''c25'', ''c26'', ''c27'', ''c28'', ''c29'', ''c30'', ''c31'']"

definition echo_env :: env where
  "echo_env =
     \<lparr>init_failure = None,
      pipeline = (\<lambda>txt labels. Inr ([PStr txt], [7 / 8]))\<rparr>"

definition many_market :: pyval where
  "many_market =
     market (PStr ''m1'') (PStr ''q'') (map PStr many_names) ''sentiment''
       (map reply many_names)"

definition many_record :: decided_rec where
  "many_record =
     \<lparr>d_market_id = PStr ''m1'', d_question = PStr ''q'',
      d_outcomes = PList (map PStr many_names),
      d_winning_outcome = PStr ''c01'', d_winning_index = 0,
      d_confidence = fl (323 / 10000), d_resolution_method = ''sentiment'',
      d_sentiment_breakdown =
        map (\<lambda>n. (PStr n,
                   \<lparr>support_count = 1, support_percentage = fl (323 / 100),
                    avg_confidence = 7 / 8\<rparr>))
          many_names,
      d_total_analyzed = 31\<rparr>"

text \<open>
  A controversy with 101 tweets, all of which a pipeline whose confidence grows with
  the length of the text assigns to the first of two teams: the first tweet, the text
  of which has two characters, with confidence 3/4, the hundred others with
  confidence 15/16.
\<close>

definition length_env :: env where
  "length_env =
     \<lparr>init_failure = None,
      pipeline =
        (\<lambda>txt labels.
           Inr ([PStr ''Pro'', PStr ''Anti''],
                [1 - 1 / 2 ^ length txt, 1 / 2 ^ length txt]))\<rparr>"

definition crowd :: "pyval list" where
  "crowd = reply ''ok'' # replicate 100 (reply ''yes!'')"

definition crowd_data :: "(string \<times> pyval) list" where
  "crowd_data =
     [(''controversy'', PStr ''c''), (''teams'', PList [PStr ''Pro'', PStr ''Anti'']),
      (''tweets'', PList crowd)]"

section \<open>Properties of the float rounding\<close>

lemma pow2_powi: "pow2 k = 2 powi k"
  by (simp add: pow2_def power_int_def field_simps)

lemma pow2_pos: "0 < pow2 k"
  by (simp add: pow2_powi)

lemma pow2_add: "pow2 (j + k) = pow2 j * pow2 k"
  by (simp add: pow2_powi power_int_add)

lemma pow2_mono: "j \<le> k \<Longrightarrow> pow2 j \<le> pow2 k"
  by (simp add: pow2_powi power_int_increasing)

lemma pow2_strict_mono: "j < k \<Longrightarrow> pow2 j < pow2 k"
  by (simp add: pow2_powi power_int_strict_increasing)

lemma pow2_le_cancel: "pow2 j \<le> pow2 k \<Longrightarrow> j \<le> k"
  using pow2_strict_mono [of k j] by (cases "j \<le> k") auto

lemma pow2_nat: "pow2 (int n) = 2 ^ n"
  by (simp add: pow2_def)

lemma pow2_minus: "pow2 (- k) = 1 / pow2 k"
  by (simp add: pow2_powi power_int_minus field_simps)

lemma round_from_error:
  assumes "0 < d" "0 \<le> r" "r < d"
  shows "\<bar>(of_int (round_from f r d) :: rat) - (of_int f + of_int r / of_int d)\<bar> \<le> 1 / 2"
proof -
  have d: "(0 :: rat) < of_int d" using assms by simp
  have r0: "(0 :: rat) \<le> of_int r / of_int d" using assms by simp
  have r1: "(of_int r :: rat) / of_int d < 1" using assms by simp
  show ?thesis
  proof (cases "2 * r < d")
    case True
    then have "(of_int (2 * r) :: rat) < of_int d" by (simp only: of_int_less_iff)
    then have "(of_int r :: rat) / of_int d < 1 / 2" using d by (simp add: field_simps)
    then show ?thesis using True r0 by (simp add: round_from_def)
  next
    case False
    note nlt = this
    show ?thesis
    proof (cases "d < 2 * r")
      case True
      then have "(of_int d :: rat) < of_int (2 * r)" by (simp only: of_int_less_iff)
      then have "1 / 2 < (of_int r :: rat) / of_int d" using d by (simp add: field_simps)
      then show ?thesis using True nlt r1 by (simp add: round_from_def)
    next
      case False
      then have "d = 2 * r" using nlt by simp
      then have "(of_int r :: rat) / of_int d = 1 / 2" using d by simp
      then show ?thesis using False nlt by (simp add: round_from_def)
    qed
  qed
qed

lemma round_quotient_error:
  assumes "0 < d"
  shows "\<bar>(of_int (round_quotient n d) :: rat) - of_int n / of_int d\<bar> \<le> 1 / 2"
proof -
  have "n = d * (n div d) + n mod d" by simp
  then have "(of_int n :: rat) = of_int d * of_int (n div d) + of_int (n mod d)"
    by (metis of_int_add of_int_mult)
  then have "(of_int n :: rat) / of_int d = of_int (n div d) + of_int (n mod d) / of_int d"
    using assms by (simp add: field_simps)
  then show ?thesis
    using round_from_error [of d "n mod d" "n div d"] assms
    by (simp add: round_quotient_def)
qed

lemma quotient_of_cases:
  obtains a b where "quotient_of x = (a, b)" "0 < b" "x = of_int a / of_int b"
  by (metis quotient_of_denom_pos quotient_of_div surj_pair)

lemma round_half_even_error: "\<bar>of_int (round_half_even x) - x\<bar> \<le> 1 / 2"
proof -
  obtain a b where "quotient_of x = (a, b)" "0 < b" "x = of_int a / of_int b"
    by (rule quotient_of_cases)
  then show ?thesis
    using round_quotient_error [of b a] by (simp add: round_half_even_def)
qed

lemma py_round_error_2: "\<bar>py_round x 2 - x\<bar> \<le> 1 / 200"
proof -
  let ?a = "of_int (round_half_even (x * 100)) - x * 100"
  have b: "\<bar>?a\<bar> \<le> 1 / 2"
    by (rule round_half_even_error)
  have "py_round x 2 - x = ?a / 100"
    by (simp add: py_round_def diff_divide_distrib)
  then have "\<bar>py_round x 2 - x\<bar> = \<bar>?a\<bar> / 100"
    by (simp only: abs_divide)
  also from b have "\<dots> \<le> (1 / 2) / 100"
    by (rule divide_right_mono) simp
  finally show ?thesis by simp
qed

lemma bitlen_lower: "0 < a \<Longrightarrow> pow2 (bitlen a - 1) \<le> of_int a"
proof -
  assume a: "0 < a"
  then have "2 ^ nat (bitlen a - 1) \<le> a" using bitlen_bounds by blast
  then have "(of_int (2 ^ nat (bitlen a - 1)) :: rat) \<le> of_int a"
    by (simp only: of_int_le_iff)
  moreover have "a < 2 ^ nat (bitlen a)" using a bitlen_bounds by blast
  then have "bitlen a \<noteq> 0" using a by auto
  then have "0 \<le> bitlen a - 1" using bitlen_nonneg [of a] by simp
  ultimately show ?thesis by (simp add: pow2_def)
qed

lemma bitlen_upper: "0 < a \<Longrightarrow> of_int a < pow2 (bitlen a)"
proof -
  assume a: "0 < a"
  then have "a < 2 ^ nat (bitlen a)" using bitlen_bounds by blast
  then have "(of_int a :: rat) < of_int (2 ^ nat (bitlen a))"
    by (simp only: of_int_less_iff)
  moreover have "0 \<le> bitlen a" by (rule bitlen_nonneg)
  ultimately show ?thesis by (simp add: pow2_def)
qed

lemma exponent_test:
  assumes "0 < b"
  shows "(if 0 \<le> k then b * 2 ^ nat k \<le> a else b \<le> a * 2 ^ nat (- k))
           \<longleftrightarrow> pow2 k \<le> of_int a / of_int b"
proof (cases "0 \<le> k")
  case True
  have "b * 2 ^ nat k \<le> a \<longleftrightarrow> (of_int (b * 2 ^ nat k) :: rat) \<le> of_int a"
    by (simp only: of_int_le_iff)
  also have "\<dots> \<longleftrightarrow> pow2 k \<le> of_int a / of_int b"
    using assms True by (simp add: pow2_def field_simps)
  finally show ?thesis using True by simp
next
  case False
  have "b \<le> a * 2 ^ nat (- k) \<longleftrightarrow> (of_int b :: rat) \<le> of_int (a * 2 ^ nat (- k))"
    by (simp only: of_int_le_iff)
  also have "\<dots> \<longleftrightarrow> pow2 k \<le> of_int a / of_int b"
    using assms False by (simp add: pow2_def field_simps)
  finally show ?thesis using False by simp
qed

lemma exponent_bounds:
  assumes a: "0 < a" and b: "0 < b"
  shows "pow2 (exponent a b) \<le> of_int a / of_int b"
    and "of_int a / of_int b < pow2 (exponent a b + 1)"
proof -
  let ?k = "bitlen a - bitlen b"
  let ?x = "(of_int a :: rat) / of_int b"
  have b': "(0 :: rat) < of_int b" using b by simp
  have e: "exponent a b = (if pow2 ?k \<le> ?x then ?k else ?k - 1)"
    using exponent_test [OF b, of ?k a] by (simp add: exponent_def exponent_adjust_def)
  have "pow2 (?k - 1) * of_int b \<le> pow2 (?k - 1) * pow2 (bitlen b)"
    using bitlen_upper [OF b] pow2_pos [of "?k - 1"] by simp
  also have "\<dots> = pow2 (bitlen a - 1)"
    by (simp add: pow2_add [symmetric])
  also have "\<dots> \<le> of_int a" by (rule bitlen_lower [OF a])
  finally have low: "pow2 (?k - 1) \<le> ?x"
    using b' by (simp add: field_simps)
  have "of_int a < pow2 (bitlen a)" by (rule bitlen_upper [OF a])
  also have "\<dots> = pow2 (?k + 1) * pow2 (bitlen b - 1)"
    by (simp add: pow2_add [symmetric])
  also have "\<dots> \<le> pow2 (?k + 1) * of_int b"
    using bitlen_lower [OF b] pow2_pos [of "?k + 1"] by simp
  finally have up: "?x < pow2 (?k + 1)"
    using b' by (simp add: field_simps)
  show "pow2 (exponent a b) \<le> ?x" using low by (simp add: e)
  show "?x < pow2 (exponent a b + 1)" using up by (auto simp add: e)
qed

lemma quantize_grid:
  assumes b: "0 < b"
  shows "\<exists>m. quantize a b s = of_int m * pow2 (- s)
           \<and> \<bar>of_int m - of_int a / of_int b * pow2 s\<bar> \<le> 1 / 2"
proof (cases "0 \<le> s")
  case True
  let ?m = "round_quotient (a * 2 ^ nat s) b"
  have "quantize a b s = of_int ?m * pow2 (- s)"
    using True by (simp add: quantize_def Fract_of_int_quotient pow2_minus) (simp add: pow2_def)
  moreover have "\<bar>of_int ?m - of_int a / of_int b * pow2 s\<bar> \<le> 1 / 2"
    using round_quotient_error [OF b, of "a * 2 ^ nat s"] True by (simp add: pow2_def)
  ultimately show ?thesis by blast
next
  case False
  let ?m = "round_quotient a (b * 2 ^ nat (- s))"
  have "quantize a b s = of_int ?m * pow2 (- s)"
    using False by (simp add: quantize_def pow2_def)
  moreover have "0 < b * 2 ^ nat (- s)" using b by simp
  then have "\<bar>(of_int ?m :: rat) - of_int a / of_int (b * 2 ^ nat (- s))\<bar> \<le> 1 / 2"
    by (rule round_quotient_error)
  then have "\<bar>of_int ?m - of_int a / of_int b * pow2 s\<bar> \<le> 1 / 2"
    using False by (simp add: pow2_def)
  ultimately show ?thesis by blast
qed

lemma quantize_error:
  assumes b: "0 < b"
  shows "\<bar>quantize a b s - of_int a / of_int b\<bar> \<le> pow2 (- s - 1)"
proof -
  obtain m where m: "quantize a b s = of_int m * pow2 (- s)"
      "\<bar>of_int m - of_int a / of_int b * pow2 s\<bar> \<le> 1 / 2"
    using quantize_grid [OF b] by blast
  let ?x = "(of_int a :: rat) / of_int b"
  have one: "pow2 s * pow2 (- s) = 1"
    using pow2_add [of s "- s"] by (simp add: pow2_def)
  have "quantize a b s - ?x = (of_int m - ?x * pow2 s) * pow2 (- s)"
    using one by (simp add: m(1) algebra_simps)
  then have "\<bar>quantize a b s - ?x\<bar> = \<bar>of_int m - ?x * pow2 s\<bar> * pow2 (- s)"
    using pow2_pos [of "- s"] by (simp add: abs_mult)
  also have "\<dots> \<le> (1 / 2) * pow2 (- s)"
    using m(2) pow2_pos [of "- s"] by (simp add: mult_right_mono)
  also have "\<dots> = pow2 (- s - 1)"
    using pow2_add [of "- s - 1" 1] by (simp add: pow2_def)
  finally show ?thesis .
qed

lemma fl_error:
  assumes x: "\<bar>x\<bar> \<le> pow2 m" and m: "- 1022 \<le> m"
  shows "\<bar>fl x - x\<bar> \<le> pow2 (m - 53)"
proof -
  obtain a b where q: "quotient_of x = (a, b)" "0 < b" "x = of_int a / of_int b"
    by (rule quotient_of_cases)
  show ?thesis
  proof (cases "a = 0")
    case True
    then show ?thesis using q pow2_pos [of "m - 53"] by (simp add: fl_def)
  next
    case False
    let ?e = "exponent \<bar>a\<bar> b"
    let ?s = "52 - max ?e (- 1022)"
    have "\<bar>x\<bar> = of_int \<bar>a\<bar> / of_int b" using q by simp
    moreover have "pow2 ?e \<le> of_int \<bar>a\<bar> / of_int b"
      using False q(2) by (intro exponent_bounds) simp_all
    ultimately have "pow2 ?e \<le> pow2 m" using x by simp
    then have "?e \<le> m" by (rule pow2_le_cancel)
    then have "- ?s - 1 \<le> m - 53" using m by simp
    then have "pow2 (- ?s - 1) \<le> pow2 (m - 53)" by (rule pow2_mono)
    moreover have "\<bar>fl x - x\<bar> \<le> pow2 (- ?s - 1)"
      using quantize_error [OF q(2), of a ?s] False q by (simp add: fl_def)
    ultimately show ?thesis by simp
  qed
qed

lemma fl_zero: "fl 0 = 0"
  by (simp add: fl_def)

section \<open>Properties of the resolver\<close>

lemma create_error_response_dict:
  "create_error_response (PDict d) err =
     Inr (Failed \<lparr>e_market_id = dict_get d ''market_id'' (PStr ''unknown''),
                  e_question = dict_get d ''question'' (PStr []),
                  e_outcomes = dict_get d ''outcomes'' (PList []),
                  e_error = err, e_status = ''error''\<rparr>)"
  by (simp add: create_error_response_def dict_get_def split: option.splits)

lemma pending_resolution_dict:
  "pending_resolution (PDict d) method message =
     Inr (Pending \<lparr>p_market_id = dict_get d ''market_id'' (PStr []),
                  p_question = dict_get d ''question'' (PStr []),
                  p_outcomes = dict_get d ''outcomes'' (PList []),
                  p_winning_outcome = PNone, p_winning_index = - 1, p_confidence = 0,
                  p_resolution_method = method, p_status = ''pending'',
                  p_message = message\<rparr>)"
  by (simp add: pending_resolution_def dict_get_def split: option.splits)

lemma pending_resolution_shape:
  "pending_resolution md method message = Inr r \<Longrightarrow>
     \<exists>x. r = Pending x \<and> p_status x = ''pending''"
  by (auto simp: pending_resolution_def split: sum.splits)

lemma sentiment_result_shape:
  "sentiment_result md outs t = Inr r \<Longrightarrow>
     (\<exists>x. r = Decided x \<and> d_resolution_method x = ''sentiment'') \<or>
     (\<exists>x. r = Pending x \<and> p_status x = ''pending'')"
  unfolding sentiment_result_def
  by (auto split: sum.splits if_splits dest: pending_resolution_shape)

lemma resolve_by_sentiment_shape:
  "resolve_by_sentiment e md = Inr r \<Longrightarrow>
     (\<exists>x. r = Decided x \<and> d_resolution_method x = ''sentiment'') \<or>
     (\<exists>x. r = Pending x \<and> p_status x = ''pending'')"
  unfolding resolve_by_sentiment_def
  by (auto split: option.splits sum.splits pyval.splits if_splits
        dest: sentiment_result_shape)

lemma resolve_market_body_shape:
  "resolve_market_body e md = Inr r \<Longrightarrow>
     (\<exists>x. r = Decided x \<and> d_resolution_method x = ''sentiment'') \<or>
     (\<exists>x. r = Pending x \<and> p_status x = ''pending'')"
  unfolding resolve_market_body_def
  by (auto split: sum.splits if_splits
        dest: pending_resolution_shape resolve_by_sentiment_shape)

lemma validate_dict_ok:
  "validate_market_data (PDict d) = Inr () \<longleftrightarrow>
     map_of d ''market_id'' \<noteq> None \<and> map_of d ''question'' \<noteq> None \<and>
     map_of d ''resolution_method'' \<noteq> None \<and>
     (\<exists>xs. map_of d ''outcomes'' = Some (PList xs) \<and> 2 \<le> length xs)"
  by (auto simp: validate_market_data_def required_fields_def
        split: option.splits pyval.splits)

lemma validate_dict_error:
  "validate_market_data (PDict d) = Inl x \<Longrightarrow> \<exists>msg. x = ValueError msg"
  by (auto simp: validate_market_data_def required_fields_def
        split: option.splits pyval.splits if_splits)

lemma validate_cases:
  "validate_market_data md = Inr () \<or> (\<exists>x. validate_market_data md = Inl x)"
  by (cases "validate_market_data md") auto

lemma validate_market: "2 \<le> length outs \<Longrightarrow> validate_market_data (market mid q outs m rs) = Inr ()"
  by (simp add: market_def validate_dict_ok)

subsection \<open>Totality on dictionaries\<close>

text \<open>
  C2, as amended. For every dictionary, whatever its fields hold and whatever the
  environment does, \<open>resolve_market\<close> returns a record, and the record is a decided
  one of the sentiment method, a pending one with status \<open>pending\<close>, or an error one
  with status \<open>error\<close>.
\<close>

theorem resolve_market_total_on_dict:
  "\<exists>r. resolve_market e (PDict d) = Inr r \<and>
     (case r of Decided x \<Rightarrow> d_resolution_method x = ''sentiment''
              | Pending x \<Rightarrow> p_status x = ''pending''
              | Failed x \<Rightarrow> e_status x = ''error'')"
proof (cases "resolve_market_body e (PDict d)")
  case (Inl err)
  then show ?thesis
    by (simp add: resolve_market_def create_error_response_dict)
next
  case (Inr r)
  from resolve_market_body_shape [OF Inr] show ?thesis
    using Inr by (auto simp: resolve_market_def)
qed

theorem resolve_market_total_on_dict_witness:
  "\<exists>r. resolve_market unavailable_env
          (PDict [(''market_id'', PNum 7), (''outcomes'', PStr ''Yes''),
                  (''reply_tweets'', PNone)]) = Inr r"
  using resolve_market_total_on_dict
    [of unavailable_env "[(''market_id'', PNum 7), (''outcomes'', PStr ''Yes''),
                  (''reply_tweets'', PNone)]"]
  by blast

text \<open>
  C2 as stated fails for an input that is no dictionary: the handler of
  \<open>resolve_market\<close> calls \<^verbatim>\<open>market_data.get\<close>, and the exception leaves the method.
\<close>

theorem resolve_market_raises_on_list:
  "resolve_market unavailable_env (PList []) = Inl AttributeError"
  by (simp add: resolve_market_def resolve_market_body_def validate_market_data_def
      required_fields_def create_error_response_def)

lemma validate_non_dict:
  "(\<And>d. md \<noteq> PDict d) \<Longrightarrow> \<exists>x. validate_market_data md = Inl x"
  by (cases md) (auto simp: validate_market_data_def split: sum.splits)

lemma resolve_market_raises_on_non_dict:
  assumes "\<And>d. md \<noteq> PDict d"
  shows "resolve_market e md = Inl AttributeError"
proof -
  from validate_non_dict [OF assms] obtain x where "validate_market_data md = Inl x"
    by blast
  then have "resolve_market_body e md = Inl x"
    by (simp add: resolve_market_body_def)
  moreover have "create_error_response md x = Inl AttributeError"
    using assms by (cases md) (auto simp: create_error_response_def)
  ultimately show ?thesis by (simp add: resolve_market_def)
qed

subsection \<open>Validation\<close>

text \<open>
  C6, as amended. When one of the four required fields is missing, or the outcomes are
  no list, or a list of fewer than two entries, validation raises a \<open>ValueError\<close>; when
  the resolution method is the empty string and validation passes, the dispatch raises
  the \<open>ValueError\<close> of the unsupported method. In both cases \<open>resolve_market\<close> returns
  the error record of that exception, identified by what the dictionary holds, in
  every environment: nothing of the models, the pipeline or the replies is used.
\<close>

theorem invalid_market_error_record:
  assumes "map_of d ''market_id'' = None \<or> map_of d ''question'' = None \<or>
           map_of d ''outcomes'' = None \<or> map_of d ''resolution_method'' = None \<or>
           map_of d ''resolution_method'' = Some (PStr []) \<or>
           (\<exists>v. map_of d ''outcomes'' = Some v \<and> \<not> is_list v) \<or>
           (\<exists>xs. map_of d ''outcomes'' = Some (PList xs) \<and> length xs < 2)"
  shows "\<exists>msg. (validate_market_data (PDict d) = Inl (ValueError msg) \<or>
                 validate_market_data (PDict d) = Inr () \<and>
                 msg = ''Unsupported resolution method: '') \<and>
           (\<forall>e. resolve_market e (PDict d) =
             Inr (Failed \<lparr>e_market_id = dict_get d ''market_id'' (PStr ''unknown''),
                    e_question = dict_get d ''question'' (PStr []),
                    e_outcomes = dict_get d ''outcomes'' (PList []),
                    e_error = ValueError msg, e_status = ''error''\<rparr>))"
proof (cases "validate_market_data (PDict d) = Inr ()")
  case True
  with assms have m: "map_of d ''resolution_method'' = Some (PStr [])"
    by (auto simp: validate_dict_ok)
  have "resolve_market_body e (PDict d) =
          Inl (ValueError ''Unsupported resolution method: '')" for e
    using True m by (simp add: resolve_market_body_def)
  then have "\<forall>e. resolve_market e (PDict d) =
             Inr (Failed \<lparr>e_market_id = dict_get d ''market_id'' (PStr ''unknown''),
                    e_question = dict_get d ''question'' (PStr []),
                    e_outcomes = dict_get d ''outcomes'' (PList []),
                    e_error = ValueError ''Unsupported resolution method: '',
                    e_status = ''error''\<rparr>)"
    by (simp add: resolve_market_def create_error_response_dict)
  with True show ?thesis by blast
next
  case False
  with validate_cases [of "PDict d"] obtain x where x: "validate_market_data (PDict d) = Inl x"
    by auto
  from validate_dict_error [OF x] obtain msg where msg: "x = ValueError msg" ..
  have "\<forall>e. resolve_market e (PDict d) =
             Inr (Failed \<lparr>e_market_id = dict_get d ''market_id'' (PStr ''unknown''),
                    e_question = dict_get d ''question'' (PStr []),
                    e_outcomes = dict_get d ''outcomes'' (PList []),
                    e_error = ValueError msg, e_status = ''error''\<rparr>)"
    using x msg
    by (simp add: resolve_market_def resolve_market_body_def create_error_response_dict)
  with x msg show ?thesis by blast
qed

theorem invalid_market_error_record_witness:
  "resolve_market (table_env five_table)
     (PDict (market_fields (PStr ''m1'') (PStr ''q'') [PStr ''OnlyOne''] ''sentiment''
        five_replies)) =
   Inr (Failed \<lparr>e_market_id = PStr ''m1'', e_question = PStr ''q'',
          e_outcomes = PList [PStr ''OnlyOne''],
          e_error = ValueError ''At least two outcomes are required'',
          e_status = ''error''\<rparr>) \<and>
   resolve_market (table_env five_table)
     (PDict (market_fields (PStr ''m1'') (PStr ''q'') yes_no [] five_replies)) =
   Inr (Failed \<lparr>e_market_id = PStr ''m1'', e_question = PStr ''q'',
          e_outcomes = PList yes_no,
          e_error = ValueError ''Unsupported resolution method: '',
          e_status = ''error''\<rparr>)"
proof -
  let ?d = "market_fields (PStr ''m1'') (PStr ''q'') [PStr ''OnlyOne''] ''sentiment''
              five_replies"
  let ?f = "market_fields (PStr ''m1'') (PStr ''q'') yes_no [] five_replies"
  have vd: "validate_market_data (PDict ?d) =
          Inl (ValueError ''At least two outcomes are required'')"
    by (simp add: validate_market_data_def required_fields_def market_fields_def)
  have vf: "validate_market_data (PDict ?f) = Inr ()"
    by (simp add: validate_dict_ok market_fields_def yes_no_def)
  have "\<exists>xs. map_of ?d ''outcomes'' = Some (PList xs) \<and> length xs < 2"
    by (simp add: market_fields_def)
  from invalid_market_error_record [of ?d, OF disjI2 [OF disjI2 [OF disjI2 [OF disjI2
      [OF disjI2 [OF disjI2 [OF this]]]]]]] vd
  have a: "resolve_market (table_env five_table) (PDict ?d) =
             Inr (Failed \<lparr>e_market_id = dict_get ?d ''market_id'' (PStr ''unknown''),
                    e_question = dict_get ?d ''question'' (PStr []),
                    e_outcomes = dict_get ?d ''outcomes'' (PList []),
                    e_error = ValueError ''At least two outcomes are required'',
                    e_status = ''error''\<rparr>)"
    by auto
  have "map_of ?f ''resolution_method'' = Some (PStr [])"
    by (simp add: market_fields_def)
  from invalid_market_error_record [of ?f, OF disjI2 [OF disjI2 [OF disjI2 [OF disjI2
      [OF disjI1 [OF this]]]]]] vf
  have b: "resolve_market (table_env five_table) (PDict ?f) =
             Inr (Failed \<lparr>e_market_id = dict_get ?f ''market_id'' (PStr ''unknown''),
                    e_question = dict_get ?f ''question'' (PStr []),
                    e_outcomes = dict_get ?f ''outcomes'' (PList []),
                    e_error = ValueError ''Unsupported resolution method: '',
                    e_status = ''error''\<rparr>)"
    by auto
  from a b show ?thesis by (simp add: dict_get_def market_fields_def)
qed

text \<open>
  C6 as stated fails: validation tests neither that a required field is non-empty nor
  that the outcomes are unique. A market with an empty identifier, an empty question
  and twice the same outcome passes it and gets a pending record.
\<close>

theorem empty_and_duplicate_fields_accepted:
  "resolve_market unavailable_env
     (market (PStr []) (PStr []) [PStr ''A'', PStr ''A''] ''manual'' []) =
   Inr (Pending \<lparr>p_market_id = PStr [], p_question = PStr [],
          p_outcomes = PList [PStr ''A'', PStr ''A''],
          p_winning_outcome = PNone, p_winning_index = - 1, p_confidence = 0,
          p_resolution_method = ''manual'', p_status = ''pending'',
          p_message = ''Pending manual resolution''\<rparr>)"
  by code_simp

subsection \<open>Dispatch on the resolution method\<close>

text \<open>
  C7, as amended. For a dictionary that passes validation: when the resolution method
  is a string that in lower case is \<open>oracle\<close> or \<open>manual\<close>, the result is the
  pending record with status \<open>pending\<close>, no winning outcome, index -1, confidence 0,
  that method, and the message \<open>Pending manual resolution\<close>, the same for both
  methods, in every environment and for every content of the replies; when it is a
  string that in lower case is none of \<open>sentiment\<close>, \<open>oracle\<close> and \<open>manual\<close>, the
  result is the error record of the unsupported method; when it is no string, the
  result is the error record of the \<open>AttributeError\<close> that \<^verbatim>\<open>lower\<close> raises.
\<close>

theorem method_dispatch:
  assumes "validate_market_data (PDict d) = Inr ()"
      and "map_of d ''resolution_method'' = Some v"
  shows "(\<forall>s. v = PStr s \<and> (map lower_char s = ''oracle'' \<or> map lower_char s = ''manual'') \<longrightarrow>
            resolve_market e (PDict d) =
              Inr (Pending \<lparr>p_market_id = dict_get d ''market_id'' (PStr []),
                     p_question = dict_get d ''question'' (PStr []),
                     p_outcomes = dict_get d ''outcomes'' (PList []),
                     p_winning_outcome = PNone, p_winning_index = - 1, p_confidence = 0,
                     p_resolution_method = map lower_char s, p_status = ''pending'',
                     p_message = ''Pending manual resolution''\<rparr>)) \<and>
         (\<forall>s. v = PStr s \<and> map lower_char s \<notin> {''sentiment'', ''oracle'', ''manual''} \<longrightarrow>
            resolve_market e (PDict d) =
              Inr (Failed \<lparr>e_market_id = dict_get d ''market_id'' (PStr ''unknown''),
                     e_question = dict_get d ''question'' (PStr []),
                     e_outcomes = dict_get d ''outcomes'' (PList []),
                     e_error =
                       ValueError (''Unsupported resolution method: '' @ map lower_char s),
                     e_status = ''error''\<rparr>)) \<and>
         ((\<forall>s. v \<noteq> PStr s) \<longrightarrow>
            resolve_market e (PDict d) =
              Inr (Failed \<lparr>e_market_id = dict_get d ''market_id'' (PStr ''unknown''),
                     e_question = dict_get d ''question'' (PStr []),
                     e_outcomes = dict_get d ''outcomes'' (PList []),
                     e_error = AttributeError, e_status = ''error''\<rparr>))"
proof (intro conjI allI impI)
  fix s
  assume a: "v = PStr s \<and> (map lower_char s = ''oracle'' \<or> map lower_char s = ''manual'')"
  define m where "m = map lower_char s"
  have "resolve_market_body e (PDict d) = pending_resolution (PDict d) m default_message"
    using a assms by (auto simp: resolve_market_body_def m_def)
  then show "resolve_market e (PDict d) =
              Inr (Pending \<lparr>p_market_id = dict_get d ''market_id'' (PStr []),
                     p_question = dict_get d ''question'' (PStr []),
                     p_outcomes = dict_get d ''outcomes'' (PList []),
                     p_winning_outcome = PNone, p_winning_index = - 1, p_confidence = 0,
                     p_resolution_method = map lower_char s, p_status = ''pending'',
                     p_message = ''Pending manual resolution''\<rparr>)"
    by (simp add: resolve_market_def pending_resolution_dict default_message_def m_def)
next
  fix s
  assume a: "v = PStr s \<and> map lower_char s \<notin> {''sentiment'', ''oracle'', ''manual''}"
  define m where "m = map lower_char s"
  have "resolve_market_body e (PDict d) =
          Inl (ValueError (''Unsupported resolution method: '' @ m))"
    using a assms by (simp add: resolve_market_body_def m_def)
  then show "resolve_market e (PDict d) =
              Inr (Failed \<lparr>e_market_id = dict_get d ''market_id'' (PStr ''unknown''),
                     e_question = dict_get d ''question'' (PStr []),
                     e_outcomes = dict_get d ''outcomes'' (PList []),
                     e_error =
                       ValueError (''Unsupported resolution method: '' @ map lower_char s),
                     e_status = ''error''\<rparr>)"
    by (simp add: resolve_market_def create_error_response_dict m_def)
next
  assume "\<forall>s. v \<noteq> PStr s"
  then have "py_lower v = Inl AttributeError" by (cases v) auto
  then have "resolve_market_body e (PDict d) = Inl AttributeError"
    using assms by (simp add: resolve_market_body_def)
  then show "resolve_market e (PDict d) =
              Inr (Failed \<lparr>e_market_id = dict_get d ''market_id'' (PStr ''unknown''),
                     e_question = dict_get d ''question'' (PStr []),
                     e_outcomes = dict_get d ''outcomes'' (PList []),
                     e_error = AttributeError, e_status = ''error''\<rparr>)"
    by (simp add: resolve_market_def create_error_response_dict)
qed

theorem method_dispatch_witness:
  "validate_market_data
     (PDict (market_fields (PStr ''m1'') (PStr ''q'') yes_no ''ORACLE'' five_replies)) = Inr () \<and>
   resolve_market (table_env five_table)
     (PDict (market_fields (PStr ''m1'') (PStr ''q'') yes_no ''ORACLE'' five_replies)) =
   Inr (Pending \<lparr>p_market_id = PStr ''m1'', p_question = PStr ''q'',
          p_outcomes = PList yes_no,
          p_winning_outcome = PNone, p_winning_index = - 1, p_confidence = 0,
          p_resolution_method = ''oracle'', p_status = ''pending'',
          p_message = ''Pending manual resolution''\<rparr>)"
proof -
  let ?d = "market_fields (PStr ''m1'') (PStr ''q'') yes_no ''ORACLE'' five_replies"
  have v: "validate_market_data (PDict ?d) = Inr ()"
    by (simp add: validate_dict_ok market_fields_def yes_no_def)
  have m: "map_of ?d ''resolution_method'' = Some (PStr ''ORACLE'')"
    by (simp add: market_fields_def)
  have l: "map lower_char ''ORACLE'' = ''oracle''"
    by code_simp
  from method_dispatch [OF v m, of "table_env five_table"] l
  have "resolve_market (table_env five_table) (PDict ?d) =
          Inr (Pending \<lparr>p_market_id = dict_get ?d ''market_id'' (PStr []),
                 p_question = dict_get ?d ''question'' (PStr []),
                 p_outcomes = dict_get ?d ''outcomes'' (PList []),
                 p_winning_outcome = PNone, p_winning_index = - 1, p_confidence = 0,
                 p_resolution_method = ''oracle'', p_status = ''pending'',
                 p_message = ''Pending manual resolution''\<rparr>)"
    by (metis (no_types))
  then have "resolve_market (table_env five_table) (PDict ?d) =
          Inr (Pending \<lparr>p_market_id = PStr ''m1'', p_question = PStr ''q'',
                 p_outcomes = PList yes_no,
                 p_winning_outcome = PNone, p_winning_index = - 1, p_confidence = 0,
                 p_resolution_method = ''oracle'', p_status = ''pending'',
                 p_message = ''Pending manual resolution''\<rparr>)"
    by (simp add: dict_get_def market_fields_def)
  with v show ?thesis by simp
qed

text \<open>
  C7 as stated fails in the message, which is not specific to the method: the oracle
  method and the manual method give the same one.
\<close>

theorem oracle_message_is_manual_message:
  "resolve_market unavailable_env (market (PStr ''m1'') (PStr ''q'') yes_no ''oracle'' []) =
     Inr (Pending \<lparr>p_market_id = PStr ''m1'', p_question = PStr ''q'',
            p_outcomes = PList [PStr ''Yes'', PStr ''No''],
            p_winning_outcome = PNone, p_winning_index = - 1, p_confidence = 0,
            p_resolution_method = ''oracle'', p_status = ''pending'',
            p_message = ''Pending manual resolution''\<rparr>) \<and>
   resolve_market unavailable_env (market (PStr ''m1'') (PStr ''q'') yes_no ''manual'' []) =
     Inr (Pending \<lparr>p_market_id = PStr ''m1'', p_question = PStr ''q'',
            p_outcomes = PList [PStr ''Yes'', PStr ''No''],
            p_winning_outcome = PNone, p_winning_index = - 1, p_confidence = 0,
            p_resolution_method = ''manual'', p_status = ''pending'',
            p_message = ''Pending manual resolution''\<rparr>)"
  by code_simp

subsection \<open>The tally of the loop over the replies\<close>

lemma tally_judgment_keys:
  "tally_judgment j t = Inr t' \<Longrightarrow> map fst (outcome_counts t') = map fst (outcome_counts t)"
  by (auto simp: tally_judgment_def update_keys split: if_splits option.splits dest!: map_of_SomeD)
   (metis fst_conv image_eqI)

lemma tally_or_skip_keys:
  "map fst (outcome_counts (tally_or_skip j t)) = map fst (outcome_counts t)"
  by (auto simp: tally_or_skip_def split: sum.splits dest: tally_judgment_keys)

lemma process_tweet_keys:
  "map fst (outcome_counts (process_tweet e outs tw t)) = map fst (outcome_counts t)"
  by (auto simp: process_tweet_def tally_or_skip_keys split: pyval.splits option.splits)

lemma fold_process_tweet_keys:
  "map fst (outcome_counts (fold (process_tweet e outs) tws t)) = map fst (outcome_counts t)"
  by (induction tws arbitrary: t) (simp_all add: process_tweet_keys)

lemma update_new_key:
  "k \<notin> fst ` set al \<Longrightarrow> AList.update k v al = al @ [(k, v)]"
  by (induction al) auto

lemma tally_or_skip_bump:
  "tally_or_skip j t =
     (if min_confidence \<le> confidence j \<and> hashable (team j)
      then bump (team j) (confidence j) t else t)"
  by (simp add: tally_or_skip_def tally_judgment_def bump_def split: option.splits)

lemma fold_update_distinct:
  "distinct (map fst al) \<Longrightarrow> distinct (map fst (fold (\<lambda>k d. AList.update k z d) ks al))"
  by (induction ks arbitrary: al) (simp_all add: distinct_update)

lemma fold_update_keys:
  "distinct (map fst al @ ks) \<Longrightarrow>
     map fst (fold (\<lambda>k d. AList.update k z d) ks al) = map fst al @ ks"
proof (induction ks arbitrary: al)
  case Nil
  then show ?case by simp
next
  case (Cons k ks)
  then have "k \<notin> fst ` set al" by auto
  then have "AList.update k z al = al @ [(k, z)]" by (rule update_new_key)
  with Cons show ?case by simp
qed

lemma fold_update_values:
  "list_all (\<lambda>kv. snd kv = z) al \<Longrightarrow>
     list_all (\<lambda>kv. snd kv = z) (fold (\<lambda>k d. AList.update k z d) ks al)"
proof (induction ks arbitrary: al)
  case Nil
  then show ?case by simp
next
  case (Cons k ks)
  have "list_all (\<lambda>kv. snd kv = z) (AList.update k z al)"
    using Cons.prems by (induction al) auto
  with Cons.IH show ?case by simp
qed

lemma init_outcome_counts_distinct: "distinct (map fst (init_outcome_counts outs))"
  by (simp add: init_outcome_counts_def fold_update_distinct)

lemma init_outcome_counts_keys:
  "distinct outs \<Longrightarrow> map fst (init_outcome_counts outs) = outs"
  using fold_update_keys [of "[]" outs zero_stat] by (simp add: init_outcome_counts_def)

lemma init_outcome_counts_zero:
  "list_all (\<lambda>kv. snd kv = zero_stat) (init_outcome_counts outs)"
  by (simp add: init_outcome_counts_def fold_update_values)

lemma sum_counts_init: "sum_counts (init_outcome_counts outs) = 0"
  using init_outcome_counts_zero [of outs]
  by (induction "init_outcome_counts outs") (auto simp: sum_counts_def zero_stat_def list_all_iff)

lemma sum_counts_update:
  "map_of al k = Some s \<Longrightarrow> count_s v = Suc (count_s s) \<Longrightarrow>
     sum_counts (AList.update k v al) = Suc (sum_counts al)"
  by (induction al) (auto simp: sum_counts_def)

lemma bump_sum_counts:
  "sum_counts (outcome_counts t) = total_analyzed t \<Longrightarrow>
     sum_counts (outcome_counts (bump k c t)) = total_analyzed (bump k c t)"
  by (auto simp: bump_def sum_counts_update split: option.splits)

lemma process_tweet_sum_counts:
  "sum_counts (outcome_counts t) = total_analyzed t \<Longrightarrow>
     sum_counts (outcome_counts (process_tweet e outs tw t)) =
       total_analyzed (process_tweet e outs tw t)"
  by (auto simp: process_tweet_def tally_or_skip_bump bump_sum_counts
        split: pyval.splits option.splits)

lemma fold_process_tweet_sum_counts:
  "sum_counts (outcome_counts t) = total_analyzed t \<Longrightarrow>
     sum_counts (outcome_counts (fold (process_tweet e outs) tws t)) =
       total_analyzed (fold (process_tweet e outs) tws t)"
  by (induction tws arbitrary: t) (simp_all add: process_tweet_sum_counts)

lemma final_tally_sum_counts:
  "sum_counts (outcome_counts (final_tally e outs tweets)) =
     total_analyzed (final_tally e outs tweets)"
  unfolding final_tally_def
  by (rule fold_process_tweet_sum_counts) (simp add: sum_counts_init)

lemma final_tally_keys:
  "map fst (outcome_counts (final_tally e outs tweets)) = map fst (init_outcome_counts outs)"
  by (simp add: final_tally_def fold_process_tweet_keys)

lemma final_tally_distinct: "distinct (map fst (outcome_counts (final_tally e outs tweets)))"
  by (simp add: final_tally_keys init_outcome_counts_distinct)

lemma resolve_by_sentiment_dict:
  "resolve_by_sentiment e (PDict d) =
     (case init_failure e of
        Some x \<Rightarrow> Inl x
      | None \<Rightarrow>
     (case map_of d ''outcomes'' of
        None \<Rightarrow> Inl KeyError
      | Some outcomes \<Rightarrow>
     (case outcomes of
        PList outs \<Rightarrow>
          if \<not> list_all hashable outs then Inl TypeError
          else
         (case py_iter (dict_get d ''reply_tweets'' (PList [])) of
            Inl x \<Rightarrow> Inl x
          | Inr tweets \<Rightarrow> sentiment_result (PDict d) outs (final_tally e outs tweets))
      | _ \<Rightarrow> Inl TypeError)))"
  by (simp add: resolve_by_sentiment_def final_tally_def dict_get_def
      split: option.splits pyval.splits sum.splits)

lemma sentiment_result_replies:
  "sentiment_result (PDict ((''reply_tweets'', x) # d)) outs t =
   sentiment_result (PDict ((''reply_tweets'', y) # d)) outs t"
  by (simp add: sentiment_result_def pending_resolution_def split: sum.splits)

lemma argmax_from_bound:
  "argmax_from xs i best m = best \<or>
   (i \<le> argmax_from xs i best m \<and> argmax_from xs i best m < i + length xs)"
proof (induction xs arbitrary: i best m)
  case Nil
  then show ?case by simp
next
  case (Cons x xs)
  show ?case
    using Cons [of "Suc i" i x] Cons [of "Suc i" best m] by auto
qed

lemma argmax_less: "scores \<noteq> [] \<Longrightarrow> argmax scores < length scores"
  using argmax_from_bound [of "tl scores" 1 0 "hd scores"]
  by (cases scores) (auto simp: argmax_def)

lemma classify_tweet_hashable: "hashable (team (classify_tweet e tx labels))"
proof -
  have "hashable (ls ! argmax scores)"
    if "scores \<noteq> []" "argmax scores < length ls" "list_all hashable (take (length scores) ls)"
    for ls :: "pyval list" and scores :: "rat list"
  proof -
    have "argmax scores < length (take (length scores) ls)"
      using that argmax_less [of scores] by simp
    then have "hashable (take (length scores) ls ! argmax scores)"
      using that(3) by (simp add: list_all_length)
    then show ?thesis using argmax_less [OF that(1)] by simp
  qed
  then show ?thesis
    by (auto simp: classify_tweet_def no_judgment_def Let_def split: sum.splits prod.splits)
qed

lemma process_tweet_judgement:
  "process_tweet e (PList outs) tweet t =
     (case judgement_of e outs tweet of None \<Rightarrow> t | Some j \<Rightarrow> tally_or_skip j t)"
  by (simp add: process_tweet_def judgement_of_def split: pyval.splits option.splits)

lemma judgement_of_hashable: "judgement_of e outs tweet = Some j \<Longrightarrow> hashable (team j)"
  by (auto simp: judgement_of_def classify_tweet_hashable split: pyval.splits option.splits)

lemma fold_update_set:
  "fst ` set (fold (\<lambda>k d. AList.update k z d) ks al) = fst ` set al \<union> set ks"
  by (induction ks arbitrary: al) (auto simp: dom_update)

lemma final_tally_key_set:
  "fst ` set (outcome_counts (final_tally e outs tweets)) = set outs"
proof -
  have "fst ` set (outcome_counts (final_tally e outs tweets)) =
        set (map fst (outcome_counts (final_tally e outs tweets)))" by simp
  also have "\<dots> = fst ` set (init_outcome_counts outs)"
    by (simp only: final_tally_keys) simp
  also have "\<dots> = set outs"
    by (simp add: init_outcome_counts_def fold_update_set)
  finally show ?thesis .
qed

lemma final_tally_snoc:
  "final_tally e outs (tweets @ [tweet]) =
     process_tweet e (PList outs) tweet (final_tally e outs tweets)"
  by (simp add: final_tally_def)

lemma counts_of_update:
  "distinct (map fst al) \<Longrightarrow> map_of al k = Some s \<Longrightarrow>
     counts_of (AList.update k v al) =
       map (\<lambda>kc. (fst kc, if fst kc = k then count_s v else snd kc)) (counts_of al)"
  by (induction al) (auto simp: counts_of_def rev_image_eqI)

lemma counts_of_absent:
  assumes "map_of al k = None"
  shows "map (\<lambda>kc. (fst kc, if P \<and> k = fst kc then f (snd kc) else snd kc)) (counts_of al) =
           counts_of al"
proof -
  have "k \<notin> fst ` set al" using assms by (simp add: map_of_eq_None_iff)
  then have "\<forall>kc \<in> set (counts_of al). k \<noteq> fst kc"
    by (auto simp: counts_of_def)
  then show ?thesis by (intro map_idI) auto
qed

lemma tally_or_skip_counts:
  assumes "distinct (map fst (outcome_counts t))" and "hashable (team j)"
  shows "counts_of (outcome_counts (tally_or_skip j t)) =
           map (\<lambda>kc. (fst kc, if min_confidence \<le> confidence j \<and> team j = fst kc
                               then snd kc + 1 else snd kc))
             (counts_of (outcome_counts t))"
proof (cases "min_confidence \<le> confidence j")
  case False
  then show ?thesis by (simp add: tally_or_skip_bump)
next
  case True
  show ?thesis
  proof (cases "map_of (outcome_counts t) (team j)")
    case None
    then show ?thesis
      using True assms(2) counts_of_absent [OF None, of "min_confidence \<le> confidence j" "\<lambda>c. c + 1"]
      by (simp add: tally_or_skip_bump bump_def)
  next
    case (Some s)
    have "snd kc = count_s s" if "kc \<in> set (counts_of (outcome_counts t))" "fst kc = team j"
      for kc
    proof -
      from that obtain s' where "(team j, s') \<in> set (outcome_counts t)" "snd kc = count_s s'"
        by (auto simp: counts_of_def)
      moreover have "(team j, s) \<in> set (outcome_counts t)"
        using Some by (rule map_of_SomeD)
      ultimately show ?thesis
        using assms(1) by (auto dest: eq_key_imp_eq_value)
    qed
    then have eq: "map (\<lambda>kc. (fst kc, if fst kc = team j then count_s s + 1 else snd kc))
            (counts_of (outcome_counts t)) =
          map (\<lambda>kc. (fst kc, if team j = fst kc then snd kc + 1 else snd kc))
            (counts_of (outcome_counts t))"
      by auto
    have "counts_of (outcome_counts (tally_or_skip j t)) =
          map (\<lambda>kc. (fst kc, if fst kc = team j then count_s s + 1 else snd kc))
            (counts_of (outcome_counts t))"
      using True assms Some by (simp add: tally_or_skip_bump bump_def counts_of_update)
    then show ?thesis
      using True by (simp add: eq)
  qed
qed

lemma process_tweet_counts:
  assumes "distinct (map fst (outcome_counts t))"
  shows "counts_of (outcome_counts (process_tweet e (PList outs) tw t)) =
           map (\<lambda>kc. (fst kc, if accepted_for e outs (fst kc) tw then snd kc + 1 else snd kc))
             (counts_of (outcome_counts t))"
proof (cases "judgement_of e outs tw")
  case None
  then show ?thesis by (simp add: process_tweet_judgement accepted_for_def)
next
  case (Some j)
  then show ?thesis
    using tally_or_skip_counts [OF assms judgement_of_hashable [OF Some]]
    by (simp add: process_tweet_judgement accepted_for_def)
qed

lemma fold_process_tweet_counts:
  "distinct (map fst (outcome_counts t)) \<Longrightarrow>
     counts_of (outcome_counts (fold (process_tweet e (PList outs)) tws t)) =
       map (\<lambda>kc. (fst kc, snd kc + length (filter (accepted_for e outs (fst kc)) tws)))
         (counts_of (outcome_counts t))"
proof (induction tws arbitrary: t)
  case Nil
  then show ?case by simp
next
  case (Cons tw tws)
  have "distinct (map fst (outcome_counts (process_tweet e (PList outs) tw t)))"
    using Cons.prems by (simp add: process_tweet_keys)
  from Cons.IH [OF this] show ?case
    by (simp add: process_tweet_counts [OF Cons.prems] o_def)
qed

lemma counts_of_init:
  "counts_of (init_outcome_counts outs) =
     map (\<lambda>k. (k, 0)) (map fst (init_outcome_counts outs))"
  using init_outcome_counts_zero [of outs]
  by (induction "init_outcome_counts outs") (auto simp: counts_of_def zero_stat_def list_all_iff)

text \<open>
  The count of an outcome in the tally of the loop is the number of replies accepted
  for it.
\<close>

lemma final_tally_counts:
  "counts_of (outcome_counts (final_tally e outs tweets)) =
     map (\<lambda>k. (k, length (filter (accepted_for e outs k) tweets)))
       (map fst (init_outcome_counts outs))"
  unfolding final_tally_def
  by (simp add: fold_process_tweet_counts init_outcome_counts_distinct counts_of_init o_def)

lemma length_filter_mset:
  "mset xs = mset ys \<Longrightarrow> length (filter P xs) = length (filter P ys)"
  by (metis mset_filter size_mset)

lemma final_tally_counts_perm:
  "mset tweets = mset tweets' \<Longrightarrow>
     counts_of (outcome_counts (final_tally e outs tweets)) =
     counts_of (outcome_counts (final_tally e outs tweets'))"
  by (simp add: final_tally_counts length_filter_mset [of tweets tweets'])

lemma sum_counts_counts_of: "sum_counts oc = sum_list (map snd (counts_of oc))"
  by (simp add: sum_counts_def counts_of_def o_def)

lemma final_tally_total_perm:
  "mset tweets = mset tweets' \<Longrightarrow>
     total_analyzed (final_tally e outs tweets) = total_analyzed (final_tally e outs tweets')"
  using final_tally_counts_perm [of tweets tweets' e outs]
  by (simp add: final_tally_sum_counts [symmetric] sum_counts_counts_of)

lemma sum_counts_zero:
  "list_all (\<lambda>kv. count_s (snd kv) = 0) oc \<Longrightarrow> sum_counts oc = 0"
  by (induction oc) (simp_all add: sum_counts_def)

subsection \<open>What one judgement contributes\<close>

text \<open>
  C4, as amended. Let \<open>j\<close> be the judgement of a reply that the loop reaches after the
  replies \<open>tweets\<close>. When the confidence of \<open>j\<close> is below the float 0.6, or its team
  is no outcome of the market, the tally after the reply is the tally before it: every
  count, every sum of confidences and the number of analysed tweets are as they were.
  When the confidence is at least the float 0.6 and the team is an outcome, the count
  of that outcome is incremented by 1, the confidence is added to its sum of
  confidences by float addition, every other outcome and the order of the outcomes
  stay as they were, and the number of analysed tweets is incremented by 1. The team
  \<open>None\<close> is treated as any other: it contributes nothing when \<open>None\<close> is no outcome.
\<close>

theorem judgement_contribution:
  assumes "judgement_of e outs tweet = Some j"
  shows "(confidence j < fl (6 / 10) \<or> team j \<notin> set outs \<longrightarrow>
            final_tally e outs (tweets @ [tweet]) = final_tally e outs tweets) \<and>
         (fl (6 / 10) \<le> confidence j \<and> team j \<in> set outs \<longrightarrow>
            (\<exists>s. map_of (outcome_counts (final_tally e outs tweets)) (team j) = Some s \<and>
                 map_of (outcome_counts (final_tally e outs (tweets @ [tweet]))) =
                   (map_of (outcome_counts (final_tally e outs tweets)))
                     (team j \<mapsto> \<lparr>count_s = count_s s + 1,
                                  confidence_sum = fadd (confidence_sum s) (confidence j)\<rparr>)) \<and>
            map fst (outcome_counts (final_tally e outs (tweets @ [tweet]))) =
              map fst (outcome_counts (final_tally e outs tweets)) \<and>
            total_analyzed (final_tally e outs (tweets @ [tweet])) =
              total_analyzed (final_tally e outs tweets) + 1)"
proof (intro conjI impI)
  let ?t = "final_tally e outs tweets"
  have step: "final_tally e outs (tweets @ [tweet]) = tally_or_skip j ?t"
    using assms by (simp add: final_tally_snoc process_tweet_judgement)
  have keys: "fst ` set (outcome_counts ?t) = set outs"
    by (rule final_tally_key_set)
  {
    assume "confidence j < fl (6 / 10) \<or> team j \<notin> set outs"
    then have "confidence j < fl (6 / 10) \<or> map_of (outcome_counts ?t) (team j) = None"
      by (simp add: map_of_eq_None_iff keys)
    then show "final_tally e outs (tweets @ [tweet]) = ?t"
      by (auto simp: step tally_or_skip_def tally_judgment_def min_confidence_def)
  }
  assume a: "fl (6 / 10) \<le> confidence j \<and> team j \<in> set outs"
  then obtain s where s: "map_of (outcome_counts ?t) (team j) = Some s"
    using keys by (metis map_of_eq_None_iff not_Some_eq)
  have h: "hashable (team j)" using assms by (rule judgement_of_hashable)
  have eq: "tally_or_skip j ?t =
      \<lparr>outcome_counts = AList.update (team j)
          \<lparr>count_s = count_s s + 1, confidence_sum = fadd (confidence_sum s) (confidence j)\<rparr>
          (outcome_counts ?t),
       total_analyzed = total_analyzed ?t + 1\<rparr>"
    using a s h by (simp add: tally_or_skip_def tally_judgment_def min_confidence_def)
  show "\<exists>s. map_of (outcome_counts ?t) (team j) = Some s \<and>
                 map_of (outcome_counts (final_tally e outs (tweets @ [tweet]))) =
                   (map_of (outcome_counts ?t))
                     (team j \<mapsto> \<lparr>count_s = count_s s + 1,
                                  confidence_sum = fadd (confidence_sum s) (confidence j)\<rparr>)"
    using s by (simp add: step eq update_conv')
  show "map fst (outcome_counts (final_tally e outs (tweets @ [tweet]))) =
          map fst (outcome_counts ?t)"
    by (simp add: step tally_or_skip_keys)
  show "total_analyzed (final_tally e outs (tweets @ [tweet])) = total_analyzed ?t + 1"
    by (simp add: step eq)
qed

theorem judgement_contribution_witness:
  "judgement_of (table_env five_table) yes_no (reply ''n65'') =
     Some \<lparr>team = PStr ''No'', confidence = fl (65 / 100)\<rparr> \<and>
   total_analyzed
     (final_tally (table_env five_table) yes_no ([reply ''y90''] @ [reply ''n65''])) =
     total_analyzed (final_tally (table_env five_table) yes_no [reply ''y90'']) + 1 \<and>
   judgement_of (table_env weak_table) yes_no (reply ''rather yes'') =
     Some \<lparr>team = PStr ''Yes'', confidence = fl (55 / 100)\<rparr> \<and>
   final_tally (table_env weak_table) yes_no ([reply ''unsure''] @ [reply ''rather yes'']) =
     final_tally (table_env weak_table) yes_no [reply ''unsure'']"
proof -
  have j: "judgement_of (table_env five_table) yes_no (reply ''n65'') =
             Some \<lparr>team = PStr ''No'', confidence = fl (65 / 100)\<rparr>"
    by code_simp
  have a: "fl (6 / 10) \<le> fl (65 / 100)"
    by code_simp
  have k: "judgement_of (table_env weak_table) yes_no (reply ''rather yes'') =
             Some \<lparr>team = PStr ''Yes'', confidence = fl (55 / 100)\<rparr>"
    by code_simp
  have b: "fl (55 / 100) < fl (6 / 10)"
    by code_simp
  from judgement_contribution [OF j, of "[reply ''y90'']"] a
  have "total_analyzed
          (final_tally (table_env five_table) yes_no ([reply ''y90''] @ [reply ''n65''])) =
        total_analyzed (final_tally (table_env five_table) yes_no [reply ''y90'']) + 1"
    by (simp add: yes_no_def)
  moreover from judgement_contribution [OF k, of "[reply ''unsure'']"] b
  have "final_tally (table_env weak_table) yes_no ([reply ''unsure''] @ [reply ''rather yes'']) =
        final_tally (table_env weak_table) yes_no [reply ''unsure'']"
    by simp
  ultimately show ?thesis using j k by simp
qed

text \<open>
  C4 as stated fails for the team \<open>None\<close>: the loop tests the threshold and the
  membership only, so that in a market one of whose outcomes is \<open>None\<close> a judgement
  with the team \<open>None\<close> and a confidence of 0.9 is counted, and the decided record
  names \<open>None\<close> as the winning outcome.
\<close>

theorem none_team_is_counted:
  "judgement_of (table_env none_table) [PNone, PStr ''No''] (reply ''first'') =
     Some \<lparr>team = PNone, confidence = fl (9 / 10)\<rparr> \<and>
   final_tally (table_env none_table) [PNone, PStr ''No''] [reply ''first''] =
     \<lparr>outcome_counts =
        [(PNone, \<lparr>count_s = 1, confidence_sum = fl (9 / 10)\<rparr>),
         (PStr ''No'', \<lparr>count_s = 0, confidence_sum = 0\<rparr>)],
      total_analyzed = 1\<rparr> \<and>
   resolve_market (table_env none_table)
     (market (PStr ''m1'') (PStr ''q'') [PNone, PStr ''No''] ''sentiment'' [reply ''first'']) =
     Inr (Decided
       \<lparr>d_market_id = PStr ''m1'', d_question = PStr ''q'',
        d_outcomes = PList [PNone, PStr ''No''],
        d_winning_outcome = PNone, d_winning_index = - 1,
        d_confidence = 1, d_resolution_method = ''sentiment'',
        d_sentiment_breakdown =
          [(PNone,
            \<lparr>support_count = 1, support_percentage = 100, avg_confidence = fl (9 / 10)\<rparr>),
           (PStr ''No'',
            \<lparr>support_count = 0, support_percentage = 0, avg_confidence = 0\<rparr>)],
        d_total_analyzed = 1\<rparr>)"
  by code_simp

subsection \<open>The loop that selects the winner\<close>

lemma beaten_by_count_le: "beaten_by s w \<Longrightarrow> count_s s \<le> count_s w"
  by (auto simp: beaten_by_def)

lemma not_beating_count_le: "not_beating s w \<Longrightarrow> count_s s \<le> count_s w"
  by (auto simp: not_beating_def)

lemma beaten_by_trans_gt:
  "beaten_by s w \<Longrightarrow> count_s w = count_s v \<Longrightarrow> mean_confidence w < mean_confidence v \<Longrightarrow> beaten_by s v"
  by (auto simp: beaten_by_def)

lemma not_beating_trans_gt:
  "not_beating s w \<Longrightarrow> count_s w = count_s v \<Longrightarrow> mean_confidence w < mean_confidence v \<Longrightarrow> beaten_by s v"
  by (auto simp: beaten_by_def not_beating_def)

lemma winner_invI:
  assumes "sentiment_breakdown st = map (\<lambda>kv. (fst kv, breakdown_of (snd kv) tot)) pre"
      and "max_count st \<noteq> 0"
      and "pre = p1 @ (winning_outcome st, wd) # p2"
      and "count_s wd = max_count st"
      and "list_all (\<lambda>kv. beaten_by (snd kv) wd) p1"
      and "list_all (\<lambda>kv. not_beating (snd kv) wd) p2"
  shows "winner_inv tot pre st"
  using assms unfolding winner_inv_def by auto

lemma winner_step:
  assumes d: "distinct (map fst oc)"
      and oc: "oc = pre @ (outcome, data) # rest"
      and inv: "winner_inv tot pre st"
  shows "\<exists>st'. winner_loop oc tot ((outcome, data) # rest) st = winner_loop oc tot rest st' \<and>
               winner_inv tot (pre @ [(outcome, data)]) st'"
proof -
  let ?c = "count_s data" and ?m = "max_count st"
  let ?bd = "AList.update outcome (breakdown_of data tot) (sentiment_breakdown st)"
  from d oc have notin: "outcome \<notin> fst ` set pre" by auto
  have bdk: "fst ` set (sentiment_breakdown st) = fst ` set pre"
    using inv by (force simp: winner_inv_def)
  have bd: "?bd = map (\<lambda>kv. (fst kv, breakdown_of (snd kv) tot)) (pre @ [(outcome, data)])"
    using inv notin bdk by (simp add: update_new_key winner_inv_def)
  consider (gt) "?m < ?c" | (tie) "?c = ?m" "0 < ?m" | (less) "?c < ?m" | (zero) "?c = 0" "?m = 0"
    by linarith
  then show ?thesis
  proof cases
    case gt
    let ?st' = "\<lparr>sentiment_breakdown = ?bd, max_count = ?c, winning_outcome = outcome\<rparr>"
    have "list_all (\<lambda>kv. beaten_by (snd kv) data) pre"
    proof (cases "?m = 0")
      case True
      with inv gt show ?thesis
        by (auto simp: winner_inv_def list_all_iff beaten_by_def)
    next
      case False
      with inv obtain p1 wd p2 where p: "pre = p1 @ (winning_outcome st, wd) # p2"
        "count_s wd = ?m" "list_all (\<lambda>kv. beaten_by (snd kv) wd) p1"
        "list_all (\<lambda>kv. not_beating (snd kv) wd) p2"
        by (auto simp: winner_inv_def)
      then show ?thesis using gt
        by (auto simp: list_all_iff beaten_by_def dest!: beaten_by_count_le not_beating_count_le)
    qed
    then have "winner_inv tot (pre @ [(outcome, data)]) ?st'"
      using gt bd by (intro winner_invI [where ?p1.0 = pre and wd = data and ?p2.0 = "[]"]) auto
    moreover have "winner_loop oc tot ((outcome, data) # rest) st = winner_loop oc tot rest ?st'"
      using gt by (simp add: Let_def)
    ultimately show ?thesis by blast
  next
    case tie
    with inv obtain p1 wd p2 where p: "pre = p1 @ (winning_outcome st, wd) # p2"
        "count_s wd = ?m" "list_all (\<lambda>kv. beaten_by (snd kv) wd) p1"
        "list_all (\<lambda>kv. not_beating (snd kv) wd) p2"
      by (auto simp: winner_inv_def)
    have "(winning_outcome st, wd) \<in> set oc" using oc p by simp
    with d have look: "map_of oc (winning_outcome st) = Some wd"
      by (rule map_of_is_SomeI)
    show ?thesis
    proof (cases "mean_confidence wd < mean_confidence data")
      case True
      let ?st' = "\<lparr>sentiment_breakdown = ?bd, max_count = ?m, winning_outcome = outcome\<rparr>"
      have "list_all (\<lambda>kv. beaten_by (snd kv) data) pre"
        using p tie True
        by (auto simp: list_all_iff beaten_by_def not_beating_def)
      then have "winner_inv tot (pre @ [(outcome, data)]) ?st'"
        using tie bd by (intro winner_invI [where ?p1.0 = pre and wd = data and ?p2.0 = "[]"]) auto
      moreover have "winner_loop oc tot ((outcome, data) # rest) st = winner_loop oc tot rest ?st'"
        using tie True look p(2) by (simp add: Let_def mean_confidence_def)
      ultimately show ?thesis by blast
    next
      case False
      let ?st' = "\<lparr>sentiment_breakdown = ?bd, max_count = ?m, winning_outcome = winning_outcome st\<rparr>"
      have "winner_inv tot (pre @ [(outcome, data)]) ?st'"
        using tie bd p False
        by (intro winner_invI [where ?p1.0 = p1 and wd = wd and ?p2.0 = "p2 @ [(outcome, data)]"])
           (auto simp: not_beating_def)
      moreover have "winner_loop oc tot ((outcome, data) # rest) st = winner_loop oc tot rest ?st'"
        using tie False look p(2) by (simp add: Let_def mean_confidence_def)
      ultimately show ?thesis by blast
    qed
  next
    case less
    then have m: "?m \<noteq> 0" by simp
    with inv obtain p1 wd p2 where p: "pre = p1 @ (winning_outcome st, wd) # p2"
        "count_s wd = ?m" "list_all (\<lambda>kv. beaten_by (snd kv) wd) p1"
        "list_all (\<lambda>kv. not_beating (snd kv) wd) p2"
      by (auto simp: winner_inv_def)
    let ?st' = "\<lparr>sentiment_breakdown = ?bd, max_count = ?m, winning_outcome = winning_outcome st\<rparr>"
    have "winner_inv tot (pre @ [(outcome, data)]) ?st'"
      using less bd p m
      by (intro winner_invI [where ?p1.0 = p1 and wd = wd and ?p2.0 = "p2 @ [(outcome, data)]"])
         (auto simp: not_beating_def)
    moreover have "winner_loop oc tot ((outcome, data) # rest) st = winner_loop oc tot rest ?st'"
      using less by (simp add: Let_def)
    ultimately show ?thesis by blast
  next
    case zero
    let ?st' = "\<lparr>sentiment_breakdown = ?bd, max_count = ?m, winning_outcome = winning_outcome st\<rparr>"
    have "winner_inv tot (pre @ [(outcome, data)]) ?st'"
      using zero bd inv unfolding winner_inv_def by auto
    moreover have "winner_loop oc tot ((outcome, data) # rest) st = winner_loop oc tot rest ?st'"
      using zero by (simp add: Let_def)
    ultimately show ?thesis by blast
  qed
qed

lemma winner_loop_inv:
  assumes "distinct (map fst oc)" and "oc = pre @ rest" and "winner_inv tot pre st"
  shows "\<exists>w. winner_loop oc tot rest st = Inr w \<and> winner_inv tot oc w"
  using assms
proof (induction rest arbitrary: pre st)
  case Nil
  then show ?case by simp
next
  case (Cons kv rest)
  obtain outcome data where kv: "kv = (outcome, data)" by (cases kv)
  from winner_step [OF Cons.prems(1) Cons.prems(2) [unfolded kv] Cons.prems(3)]
  obtain st' where s: "winner_loop oc tot ((outcome, data) # rest) st = winner_loop oc tot rest st'"
    and i: "winner_inv tot (pre @ [(outcome, data)]) st'" by blast
  from Cons.IH [OF Cons.prems(1) _ i] Cons.prems(2) kv s show ?case by simp
qed

lemma winner_loop_from_start:
  assumes "distinct (map fst oc)"
  shows "\<exists>w. winner_loop oc tot oc
            \<lparr>sentiment_breakdown = [], max_count = 0, winning_outcome = PNone\<rparr> = Inr w \<and>
          winner_inv tot oc w"
  by (rule winner_loop_inv [OF assms, of "[]"]) (simp_all add: winner_inv_def)
lemma decided_from_sentiment:
  assumes "resolve_market e (PDict d) = Inr (Decided r)"
  shows "resolve_by_sentiment e (PDict d) = Inr (Decided r)"
proof -
  from assms have b: "resolve_market_body e (PDict d) = Inr (Decided r)"
    by (auto simp: resolve_market_def create_error_response_dict split: sum.splits)
  then show ?thesis
    by (auto simp: resolve_market_body_def pending_resolution_dict
        split: sum.splits if_splits)
qed

lemma decided_from_sentiment_result:
  assumes "resolve_market e (PDict d) = Inr (Decided r)"
      and "map_of d ''outcomes'' = Some (PList outs)"
      and "py_iter (dict_get d ''reply_tweets'' (PList [])) = Inr tweets"
  shows "sentiment_result (PDict d) outs (final_tally e outs tweets) = Inr (Decided r)"
  using decided_from_sentiment [OF assms(1)] assms(2,3)
  by (auto simp: resolve_by_sentiment_dict split: option.splits if_splits)

lemma sentiment_result_decided:
  assumes "sentiment_result md outs t = Inr (Decided r)"
      and "distinct (map fst (outcome_counts t))"
  shows "\<exists>w. winner_inv (total_analyzed t) (outcome_counts t) w \<and> max_count w \<noteq> 0 \<and>
             total_analyzed t \<noteq> 0 \<and>
             d_winning_outcome r = winning_outcome w \<and>
             d_sentiment_breakdown r = sentiment_breakdown w \<and>
             d_total_analyzed r = total_analyzed t \<and>
             d_outcomes r = PList outs \<and>
             d_confidence r = float_round (true_div (max_count w) (total_analyzed t)) 4 \<and>
             (if truthy (winning_outcome w)
              then index_from outs (winning_outcome w) 0 = Inr (d_winning_index r)
              else d_winning_index r = - 1)"
proof -
  from winner_loop_from_start [OF assms(2), of "total_analyzed t"]
  obtain w where w: "winner_loop (outcome_counts t) (total_analyzed t) (outcome_counts t)
            \<lparr>sentiment_breakdown = [], max_count = 0, winning_outcome = PNone\<rparr> = Inr w"
    and inv: "winner_inv (total_analyzed t) (outcome_counts t) w" by blast
  from assms(1) have t0: "total_analyzed t \<noteq> 0"
    by (auto simp: sentiment_result_def split: if_splits)
  have m: "max_count w \<noteq> 0"
  proof
    assume "max_count w = 0"
    with assms(1) w t0
    have "pending_resolution md ''sentiment'' insufficient_message = Inr (Decided r)"
      by (simp add: sentiment_result_def)
    from pending_resolution_shape [OF this] show False by simp
  qed
  from assms(1) w t0 m obtain i mid q where
    i: "(if truthy (winning_outcome w) then index_from outs (winning_outcome w) 0
         else Inr (- 1)) = Inr i"
    and r: "r = \<lparr>d_market_id = mid, d_question = q, d_outcomes = PList outs,
                 d_winning_outcome = winning_outcome w,
                 d_winning_index = i,
                 d_confidence =
                   float_round (true_div (max_count w) (total_analyzed t)) 4,
                 d_resolution_method = ''sentiment'',
                 d_sentiment_breakdown = sentiment_breakdown w,
                 d_total_analyzed = total_analyzed t\<rparr>"
    by (simp add: sentiment_result_def split: sum.splits) blast
  from i have "if truthy (winning_outcome w)
              then index_from outs (winning_outcome w) 0 = Inr (d_winning_index r)
              else d_winning_index r = - 1"
    by (simp add: r split: if_splits)
  with inv m t0 show ?thesis by (auto simp: r)
qed

text \<open>
  The two sequences of replies to the market of X and Y. In the first the sums of the
  confidences are the floats 2.4 for X and 2.4000000000000004 for Y, and Y wins; in
  the second both sums are 2.4000000000000004, and X wins.
\<close>

lemma xy_tally:
  "final_tally (table_env xy_table) xy xy_replies =
     \<lparr>outcome_counts =
        [(PStr ''X'', \<lparr>count_s = 3, confidence_sum = fl (24 / 10)\<rparr>),
         (PStr ''Y'', \<lparr>count_s = 3, confidence_sum = fl (24 / 10) + pow2 (- 51)\<rparr>)],
      total_analyzed = 6\<rparr>"
  by code_simp

lemma xy_tally_reordered:
  "final_tally (table_env xy_table) xy xy_replies_reordered =
     \<lparr>outcome_counts =
        [(PStr ''X'', \<lparr>count_s = 3, confidence_sum = fl (24 / 10) + pow2 (- 51)\<rparr>),
         (PStr ''Y'', \<lparr>count_s = 3, confidence_sum = fl (24 / 10) + pow2 (- 51)\<rparr>)],
      total_analyzed = 6\<rparr>"
  by code_simp

lemma xy_resolution:
  "resolve_market (table_env xy_table) (PDict (xy_fields xy_replies)) =
     Inr (Decided (xy_record (PStr ''Y'') 1))"
  by code_simp

lemma xy_resolution_reordered:
  "resolve_market (table_env xy_table) (PDict (xy_fields xy_replies_reordered)) =
     Inr (Decided (xy_record (PStr ''X'') 0))"
  by code_simp

text \<open>
  C3. Let the outcomes of a market be unique and its result a decided record. In the
  dictionary of counts, which lists the outcomes in their declared order, every
  outcome before the winning one has a smaller count than it, or the same count and a
  smaller mean confidence; every outcome after the winning one has a smaller count,
  or the same count and a mean confidence that is not greater. So among the outcomes
  tied for the greatest count the one of greatest mean confidence wins, and among
  those of equal mean confidence the earliest one.
\<close>

theorem tie_break:
  assumes "resolve_market e (PDict d) = Inr (Decided r)"
      and "map_of d ''outcomes'' = Some (PList outs)"
      and "distinct outs"
      and "py_iter (dict_get d ''reply_tweets'' (PList [])) = Inr tweets"
  shows "\<exists>p1 wd p2.
           outcome_counts (final_tally e outs tweets) = p1 @ (d_winning_outcome r, wd) # p2 \<and>
           map fst (outcome_counts (final_tally e outs tweets)) = outs \<and>
           0 < count_s wd \<and>
           list_all (\<lambda>kv. beaten_by (snd kv) wd) p1 \<and>
           list_all (\<lambda>kv. not_beating (snd kv) wd) p2"
proof -
  let ?t = "final_tally e outs tweets"
  from decided_from_sentiment_result [OF assms(1,2,4)]
  have "sentiment_result (PDict d) outs ?t = Inr (Decided r)" .
  from sentiment_result_decided [OF this final_tally_distinct]
  obtain w where inv: "winner_inv (total_analyzed ?t) (outcome_counts ?t) w"
    and m: "max_count w \<noteq> 0" and wo: "d_winning_outcome r = winning_outcome w"
    by blast
  from inv m obtain p1 wd p2 where
    "outcome_counts ?t = p1 @ (winning_outcome w, wd) # p2" "count_s wd = max_count w"
    "list_all (\<lambda>kv. beaten_by (snd kv) wd) p1" "list_all (\<lambda>kv. not_beating (snd kv) wd) p2"
    by (auto simp: winner_inv_def)
  moreover have "map fst (outcome_counts ?t) = outs"
    by (simp add: final_tally_keys init_outcome_counts_keys assms(3))
  ultimately show ?thesis using m wo
    by (intro exI [of _ p1] exI [of _ wd] exI [of _ p2]) simp
qed

theorem tie_break_witness:
  "resolve_market (table_env xy_table) (PDict (xy_fields xy_replies)) =
     Inr (Decided (xy_record (PStr ''Y'') 1)) \<and>
   map_of (xy_fields xy_replies) ''outcomes'' = Some (PList xy) \<and> distinct xy \<and>
   py_iter (dict_get (xy_fields xy_replies) ''reply_tweets'' (PList [])) = Inr xy_replies \<and>
   (\<exists>p1 wd p2.
      outcome_counts (final_tally (table_env xy_table) xy xy_replies) =
        p1 @ (PStr ''Y'', wd) # p2 \<and>
      map fst (outcome_counts (final_tally (table_env xy_table) xy xy_replies)) = xy \<and>
      0 < count_s wd \<and>
      list_all (\<lambda>kv. beaten_by (snd kv) wd) p1 \<and>
      list_all (\<lambda>kv. not_beating (snd kv) wd) p2)"
proof -
  have r: "resolve_market (table_env xy_table) (PDict (xy_fields xy_replies)) =
             Inr (Decided (xy_record (PStr ''Y'') 1))"
    by (rule xy_resolution)
  have o: "map_of (xy_fields xy_replies) ''outcomes'' = Some (PList xy)"
    by (simp add: xy_fields_def market_fields_def)
  have d: "distinct xy"
    by (simp add: xy_def)
  have t: "py_iter (dict_get (xy_fields xy_replies) ''reply_tweets'' (PList [])) =
             Inr xy_replies"
    by (simp add: xy_fields_def dict_get_def)
  have w: "d_winning_outcome (xy_record (PStr ''Y'') 1) = PStr ''Y''"
    by (simp add: xy_record_def)
  from tie_break [OF r o d t] r o d t show ?thesis
    unfolding w by blast
qed

subsection \<open>The order of the replies\<close>

lemma index_from_total: "v \<in> set xs \<Longrightarrow> \<exists>i. index_from xs v k = Inr i"
  by (induction xs arbitrary: k) auto

lemma same_up_to_ties_simps:
  "same_up_to_ties (Inl x) y \<longleftrightarrow> y = Inl x"
  "same_up_to_ties (Inr (Pending p)) y \<longleftrightarrow> y = Inr (Pending p)"
  "same_up_to_ties (Inr (Failed f)) y \<longleftrightarrow> y = Inr (Failed f)"
  "same_up_to_ties (Inr (Decided r)) y \<longleftrightarrow> (\<exists>r'. y = Inr (Decided r') \<and> same_supports r r')"
  by (auto simp: same_up_to_ties_def split: sum.splits resolution.splits)

lemma winner_count:
  assumes "winner_inv tot oc w" and "max_count w \<noteq> 0"
  shows "(winning_outcome w, max_count w) \<in> set (counts_of oc)"
    and "\<forall>kc \<in> set (counts_of oc). snd kc \<le> max_count w"
proof -
  from assms obtain p1 wd p2 where p:
    "oc = p1 @ (winning_outcome w, wd) # p2" "count_s wd = max_count w"
    "list_all (\<lambda>kv. beaten_by (snd kv) wd) p1" "list_all (\<lambda>kv. not_beating (snd kv) wd) p2"
    by (auto simp: winner_inv_def)
  show "(winning_outcome w, max_count w) \<in> set (counts_of oc)"
    using p(1,2) by (auto simp: counts_of_def)
  show "\<forall>kc \<in> set (counts_of oc). snd kc \<le> max_count w"
    using p by (auto simp: counts_of_def list_all_iff beaten_by_def not_beating_def)
qed

lemma max_count_determined:
  assumes "winner_inv tot oc w" "max_count w \<noteq> 0"
      and "winner_inv tot' oc' w'" "max_count w' \<noteq> 0"
      and "counts_of oc = counts_of oc'"
  shows "max_count w = max_count w'"
proof -
  note a = winner_count [OF assms(1,2)] and b = winner_count [OF assms(3,4)]
  from a(1) b(2) assms(5) have "max_count w \<le> max_count w'" by fastforce
  moreover from b(1) a(2) assms(5) have "max_count w' \<le> max_count w" by fastforce
  ultimately show ?thesis by simp
qed

lemma winner_support:
  assumes "winner_inv tot oc w" and "max_count w \<noteq> 0" and "distinct (map fst oc)"
  shows "\<exists>b. map_of (sentiment_breakdown w) (winning_outcome w) = Some b \<and>
              support_count b = max_count w"
proof -
  from assms obtain p1 wd p2 where p:
    "oc = p1 @ (winning_outcome w, wd) # p2" "count_s wd = max_count w"
    and b: "sentiment_breakdown w = map (\<lambda>kv. (fst kv, breakdown_of (snd kv) tot)) oc"
    by (auto simp: winner_inv_def)
  have "(winning_outcome w, wd) \<in> set oc" using p(1) by simp
  with assms(3) have "map_of oc (winning_outcome w) = Some wd"
    by (rule map_of_is_SomeI)
  moreover have "map_of (map (\<lambda>kv. (fst kv, breakdown_of (snd kv) tot)) oc) k =
        map_option (\<lambda>s. breakdown_of s tot) (map_of oc k)" for k
    by (induction oc) auto
  ultimately show ?thesis using p(2) by (simp add: b breakdown_of_def)
qed

lemma supports_of_breakdown:
  assumes "winner_inv tot oc w"
  shows "supports_of (sentiment_breakdown w) =
           map (\<lambda>kc. (fst kc, snd kc,
                  if 0 < tot then float_round (fmul (true_div (snd kc) tot) 100) 2 else 0))
             (counts_of oc)"
  using assms by (simp add: winner_inv_def supports_of_def counts_of_def breakdown_of_def o_def)

lemma sentiment_result_cases:
  assumes d: "distinct (map fst (outcome_counts t))"
      and k: "fst ` set (outcome_counts t) \<subseteq> set outs"
      and s: "sum_counts (outcome_counts t) = total_analyzed t"
      and n: "total_analyzed t \<noteq> 0"
  shows "\<exists>w i. winner_inv (total_analyzed t) (outcome_counts t) w \<and> max_count w \<noteq> 0 \<and>
           sentiment_result md outs t =
             (case py_getitem md ''market_id'' of
                Inl x \<Rightarrow> Inl x
              | Inr mid \<Rightarrow>
             (case py_getitem md ''question'' of
                Inl x \<Rightarrow> Inl x
              | Inr q \<Rightarrow>
                  Inr (Decided
                    \<lparr>d_market_id = mid, d_question = q, d_outcomes = PList outs,
                     d_winning_outcome = winning_outcome w,
                     d_winning_index = i,
                     d_confidence =
                       float_round (true_div (max_count w) (total_analyzed t)) 4,
                     d_resolution_method = ''sentiment'',
                     d_sentiment_breakdown = sentiment_breakdown w,
                     d_total_analyzed = total_analyzed t\<rparr>)))"
proof -
  from winner_loop_from_start [OF d, of "total_analyzed t"]
  obtain w where w: "winner_loop (outcome_counts t) (total_analyzed t) (outcome_counts t)
            \<lparr>sentiment_breakdown = [], max_count = 0, winning_outcome = PNone\<rparr> = Inr w"
    and inv: "winner_inv (total_analyzed t) (outcome_counts t) w" by blast
  have m: "max_count w \<noteq> 0"
  proof
    assume "max_count w = 0"
    with inv have "list_all (\<lambda>kv. count_s (snd kv) = 0) (outcome_counts t)"
      by (simp add: winner_inv_def)
    from sum_counts_zero [OF this] s n show False by simp
  qed
  from winner_count(1) [OF inv m] have "winning_outcome w \<in> fst ` set (outcome_counts t)"
    by (auto simp: counts_of_def)
  with k have "winning_outcome w \<in> set outs" by blast
  from index_from_total [OF this, of 0]
  obtain i0 where i0: "index_from outs (winning_outcome w) 0 = Inr i0" ..
  define i where "i = (if truthy (winning_outcome w) then i0 else - 1)"
  have "(if truthy (winning_outcome w) then index_from outs (winning_outcome w) 0
         else Inr (- 1)) = Inr i"
    by (simp add: i_def i0)
  then have "sentiment_result md outs t =
             (case py_getitem md ''market_id'' of
                Inl x \<Rightarrow> Inl x
              | Inr mid \<Rightarrow>
             (case py_getitem md ''question'' of
                Inl x \<Rightarrow> Inl x
              | Inr q \<Rightarrow>
                  Inr (Decided
                    \<lparr>d_market_id = mid, d_question = q, d_outcomes = PList outs,
                     d_winning_outcome = winning_outcome w,
                     d_winning_index = i,
                     d_confidence =
                       float_round (true_div (max_count w) (total_analyzed t)) 4,
                     d_resolution_method = ''sentiment'',
                     d_sentiment_breakdown = sentiment_breakdown w,
                     d_total_analyzed = total_analyzed t\<rparr>)))"
    using w n m by (simp add: sentiment_result_def)
  with inv m show ?thesis by blast
qed

lemma sentiment_result_perm:
  assumes c: "counts_of (outcome_counts t) = counts_of (outcome_counts t')"
      and n: "total_analyzed t = total_analyzed t'"
      and d: "distinct (map fst (outcome_counts t))" "distinct (map fst (outcome_counts t'))"
      and k: "fst ` set (outcome_counts t) \<subseteq> set outs"
             "fst ` set (outcome_counts t') \<subseteq> set outs"
      and s: "sum_counts (outcome_counts t) = total_analyzed t"
             "sum_counts (outcome_counts t') = total_analyzed t'"
  shows "same_up_to_ties (sentiment_result md outs t) (sentiment_result md outs t')"
proof (cases "total_analyzed t = 0")
  case True
  then show ?thesis using n by (simp add: sentiment_result_def same_up_to_ties_simps)
next
  case False
  then have n': "total_analyzed t' \<noteq> 0" using n by simp
  from sentiment_result_cases [OF d(1) k(1) s(1) False, of md]
  obtain w i where w: "winner_inv (total_analyzed t) (outcome_counts t) w" "max_count w \<noteq> 0"
    and r: "sentiment_result md outs t =
             (case py_getitem md ''market_id'' of
                Inl x \<Rightarrow> Inl x
              | Inr mid \<Rightarrow>
             (case py_getitem md ''question'' of
                Inl x \<Rightarrow> Inl x
              | Inr q \<Rightarrow>
                  Inr (Decided
                    \<lparr>d_market_id = mid, d_question = q, d_outcomes = PList outs,
                     d_winning_outcome = winning_outcome w,
                     d_winning_index = i,
                     d_confidence =
                       float_round (true_div (max_count w) (total_analyzed t)) 4,
                     d_resolution_method = ''sentiment'',
                     d_sentiment_breakdown = sentiment_breakdown w,
                     d_total_analyzed = total_analyzed t\<rparr>)))"
    by blast
  from sentiment_result_cases [OF d(2) k(2) s(2) n', of md]
  obtain w' i' where w': "winner_inv (total_analyzed t') (outcome_counts t') w'"
      "max_count w' \<noteq> 0"
    and r': "sentiment_result md outs t' =
             (case py_getitem md ''market_id'' of
                Inl x \<Rightarrow> Inl x
              | Inr mid \<Rightarrow>
             (case py_getitem md ''question'' of
                Inl x \<Rightarrow> Inl x
              | Inr q \<Rightarrow>
                  Inr (Decided
                    \<lparr>d_market_id = mid, d_question = q, d_outcomes = PList outs,
                     d_winning_outcome = winning_outcome w',
                     d_winning_index = i',
                     d_confidence =
                       float_round (true_div (max_count w') (total_analyzed t')) 4,
                     d_resolution_method = ''sentiment'',
                     d_sentiment_breakdown = sentiment_breakdown w',
                     d_total_analyzed = total_analyzed t'\<rparr>)))"
    by blast
  have m: "max_count w = max_count w'"
    by (rule max_count_determined [OF w w' c])
  have b: "supports_of (sentiment_breakdown w') = supports_of (sentiment_breakdown w)"
    by (simp add: supports_of_breakdown [OF w(1)] supports_of_breakdown [OF w'(1)] c n)
  from winner_support [OF w d(1)] obtain x where
    x: "map_of (sentiment_breakdown w) (winning_outcome w) = Some x"
       "support_count x = max_count w" by blast
  from winner_support [OF w' d(2)] obtain x' where
    x': "map_of (sentiment_breakdown w') (winning_outcome w') = Some x'"
       "support_count x' = max_count w'" by blast
  show ?thesis
    unfolding r r'
    using m b x x' n
    by (simp add: same_up_to_ties_simps same_supports_def split: sum.splits)
qed

lemma final_tally_keys_subset:
  "fst ` set (outcome_counts (final_tally e outs tweets)) \<subseteq> set outs"
  by (simp add: final_tally_key_set)

lemma resolve_by_sentiment_perm:
  assumes "mset tweets = mset tweets'"
  shows "same_up_to_ties
           (resolve_by_sentiment e (PDict ((''reply_tweets'', PList tweets) # d)))
           (resolve_by_sentiment e (PDict ((''reply_tweets'', PList tweets') # d)))"
proof -
  have "same_up_to_ties
          (sentiment_result (PDict ((''reply_tweets'', PList tweets) # d)) outs
             (final_tally e outs tweets))
          (sentiment_result (PDict ((''reply_tweets'', PList tweets') # d)) outs
             (final_tally e outs tweets'))" for outs
    unfolding sentiment_result_replies [of "PList tweets'" d outs _ "PList tweets"]
    by (intro sentiment_result_perm final_tally_counts_perm final_tally_total_perm assms
          final_tally_distinct final_tally_keys_subset final_tally_sum_counts)
  then show ?thesis
    by (simp add: resolve_by_sentiment_dict dict_get_def same_up_to_ties_simps
        split: option.splits pyval.splits)
qed

lemma resolve_market_body_perm:
  assumes "mset tweets = mset tweets'"
  shows "same_up_to_ties
           (resolve_market_body e (PDict ((''reply_tweets'', PList tweets) # d)))
           (resolve_market_body e (PDict ((''reply_tweets'', PList tweets') # d)))"
proof -
  have v: "validate_market_data (PDict ((''reply_tweets'', PList tweets) # d)) =
        validate_market_data (PDict ((''reply_tweets'', PList tweets') # d))"
    by (simp add: validate_market_data_def required_fields_def)
  show ?thesis
    using resolve_by_sentiment_perm [OF assms, of e d]
    by (simp add: resolve_market_body_def v pending_resolution_dict dict_get_def
        same_up_to_ties_simps split: sum.splits)
qed

lemma xy_mset: "mset xy_replies = mset xy_replies_reordered"
  by (simp add: xy_replies_def xy_replies_reordered_def)

text \<open>
  C8, as amended. Let two sequences of replies be permutations of each other. For the
  same market and the same classifier they give the same counts: when one result is a
  decided record so is the other, with the same market, outcomes, number of analysed
  tweets and confidence, the same support count and support percentage of every
  outcome, and winning outcomes of the same support count; a result that is no decided
  record is the same for both. The sums of the confidences are accumulated by float
  addition in the order of the replies, so that the mean confidences, and with them
  the winner among the outcomes tied for the greatest count, depend on the order.
\<close>

theorem reply_order_up_to_ties:
  assumes "mset tweets = mset tweets'"
  shows "same_up_to_ties
           (resolve_market e (PDict ((''reply_tweets'', PList tweets) # d)))
           (resolve_market e (PDict ((''reply_tweets'', PList tweets') # d)))"
proof (cases "resolve_market_body e (PDict ((''reply_tweets'', PList tweets) # d))")
  case (Inl err)
  with resolve_market_body_perm [OF assms, of e d]
  have "resolve_market_body e (PDict ((''reply_tweets'', PList tweets') # d)) = Inl err"
    by (simp add: same_up_to_ties_simps)
  with Inl show ?thesis
    by (simp add: resolve_market_def create_error_response_dict dict_get_def
        same_up_to_ties_simps)
next
  case (Inr r)
  with resolve_market_body_perm [OF assms, of e d] show ?thesis
    by (cases r) (auto simp: resolve_market_def same_up_to_ties_simps)
qed

theorem reply_order_up_to_ties_witness:
  "mset xy_replies = mset xy_replies_reordered \<and>
   same_up_to_ties
     (resolve_market (table_env xy_table) (PDict (xy_fields xy_replies)))
     (resolve_market (table_env xy_table) (PDict (xy_fields xy_replies_reordered))) \<and>
   same_supports (xy_record (PStr ''Y'') 1) (xy_record (PStr ''X'') 0)"
proof -
  have m: "mset xy_replies = mset xy_replies_reordered"
    by (rule xy_mset)
  from reply_order_up_to_ties [OF m,
      of "table_env xy_table" "market_fields (PStr ''m1'') (PStr ''q'') xy ''sentiment'' []"]
  have s: "same_up_to_ties
     (resolve_market (table_env xy_table) (PDict (xy_fields xy_replies)))
     (resolve_market (table_env xy_table) (PDict (xy_fields xy_replies_reordered)))"
    by (simp add: xy_fields_def)
  then have "same_supports (xy_record (PStr ''Y'') 1) (xy_record (PStr ''X'') 0)"
    by (simp add: xy_resolution xy_resolution_reordered same_up_to_ties_simps)
  with m s show ?thesis by simp
qed

text \<open>
  C8 as stated fails in the winning outcome. The two sequences of replies to the
  market of X and Y are permutations of each other; in the first Y wins, with index 1,
  in the second X, with index 0.
\<close>

theorem reply_order_changes_winner:
  "mset xy_replies = mset xy_replies_reordered \<and>
   resolve_market (table_env xy_table) (PDict (xy_fields xy_replies)) =
     Inr (Decided (xy_record (PStr ''Y'') 1)) \<and>
   resolve_market (table_env xy_table) (PDict (xy_fields xy_replies_reordered)) =
     Inr (Decided (xy_record (PStr ''X'') 0))"
  by (simp add: xy_mset xy_resolution xy_resolution_reordered)

subsection \<open>No accepted judgement\<close>

text \<open>
  C1 at a concrete market of the sentiment method that passes validation and none of
  whose five replies is accepted (no text, blank text, no dictionary, unclassified,
  classified below 0.6): the result is the error record of the \<open>ValueError\<close> raised
  where the number of analysed tweets is zero, not the pending record.
\<close>

theorem no_accepted_judgement_gives_error:
  "resolve_market (table_env weak_table) weak_market =
     Inr (Failed \<lparr>e_market_id = PStr ''m1'', e_question = PStr ''q'',
            e_outcomes = PList [PStr ''Yes'', PStr ''No'', PStr ''Maybe''],
            e_error = ValueError ''No valid tweets could be analyzed for sentiment'',
            e_status = ''error''\<rparr>)"
  by code_simp

text \<open>
  The same for every validated market of the sentiment method whose loop accepts no
  judgement; and the pending record of the sentiment method is never returned, since
  a positive number of analysed tweets gives some outcome a positive count.
\<close>

lemma sentiment_result_not_pending:
  assumes "distinct (map fst (outcome_counts t))"
      and "sum_counts (outcome_counts t) = total_analyzed t"
  shows "sentiment_result md outs t \<noteq> Inr (Pending p)"
proof
  assume a: "sentiment_result md outs t = Inr (Pending p)"
  then have t0: "total_analyzed t \<noteq> 0"
    by (auto simp: sentiment_result_def split: if_splits)
  from winner_loop_from_start [OF assms(1), of "total_analyzed t"]
  obtain w where w: "winner_loop (outcome_counts t) (total_analyzed t) (outcome_counts t)
            \<lparr>sentiment_breakdown = [], max_count = 0, winning_outcome = PNone\<rparr> = Inr w"
    and inv: "winner_inv (total_analyzed t) (outcome_counts t) w" by blast
  have "max_count w = 0"
  proof (rule ccontr)
    assume "max_count w \<noteq> 0"
    with a w t0 show False
      by (auto simp: sentiment_result_def split: sum.splits if_splits)
  qed
  with inv have "list_all (\<lambda>kv. count_s (snd kv) = 0) (outcome_counts t)"
    by (simp add: winner_inv_def)
  from sum_counts_zero [OF this] assms(2) t0 show False by simp
qed

lemma sentiment_pending_unreachable:
  assumes "resolve_market e (PDict d) = Inr (Pending p)"
  shows "p_resolution_method p = ''oracle'' \<or> p_resolution_method p = ''manual''"
proof -
  from assms have b: "resolve_market_body e (PDict d) = Inr (Pending p)"
    by (auto simp: resolve_market_def create_error_response_dict split: sum.splits)
  have "resolve_by_sentiment e (PDict d) \<noteq> Inr (Pending p)"
    by (auto simp: resolve_by_sentiment_dict final_tally_distinct final_tally_sum_counts
        sentiment_result_not_pending split: option.splits pyval.splits sum.splits)
  with b show ?thesis
    by (auto simp: resolve_market_body_def pending_resolution_dict split: sum.splits if_splits)
qed

lemma sentiment_nothing_accepted:
  assumes "validate_market_data (PDict d) = Inr ()"
      and "map_of d ''resolution_method'' = Some (PStr s)"
      and "map lower_char s = ''sentiment''"
      and "init_failure e = None"
      and "map_of d ''outcomes'' = Some (PList outs)"
      and "list_all hashable outs"
      and "py_iter (dict_get d ''reply_tweets'' (PList [])) = Inr tweets"
      and "total_analyzed (final_tally e outs tweets) = 0"
  shows "resolve_market e (PDict d) =
           Inr (Failed \<lparr>e_market_id = dict_get d ''market_id'' (PStr ''unknown''),
                  e_question = dict_get d ''question'' (PStr []),
                  e_outcomes = PList outs,
                  e_error = ValueError ''No valid tweets could be analyzed for sentiment'',
                  e_status = ''error''\<rparr>)"
proof -
  have "resolve_by_sentiment e (PDict d) = Inl (ValueError no_tweets_message)"
    using assms(4-8) by (simp add: resolve_by_sentiment_dict sentiment_result_def)
  then have "resolve_market_body e (PDict d) = Inl (ValueError no_tweets_message)"
    using assms(1-3) by (simp add: resolve_market_body_def)
  then show ?thesis
    using assms(5)
    by (simp add: resolve_market_def create_error_response_dict dict_get_def no_tweets_message_def)
qed

subsection \<open>The decided record\<close>

text \<open>
  C5 at a concrete market whose first outcome is the empty string and whose only reply
  is classified as that outcome: the decided record names the empty string as the
  winning outcome, which stands at index 0 of the outcomes, and reports index -1.
\<close>

theorem falsy_winner_gets_index_minus_one:
  "resolve_market (table_env blank_table) blank_market =
     Inr (Decided
       \<lparr>d_market_id = PStr ''m1'', d_question = PStr ''q'',
        d_outcomes = PList [PStr [], PStr ''No''],
        d_winning_outcome = PStr [], d_winning_index = - 1,
        d_confidence = 1, d_resolution_method = ''sentiment'',
        d_sentiment_breakdown =
          [(PStr [],
            \<lparr>support_count = 1, support_percentage = 100, avg_confidence = fl (9 / 10)\<rparr>),
           (PStr ''No'',
            \<lparr>support_count = 0, support_percentage = 0, avg_confidence = 0\<rparr>)],
        d_total_analyzed = 1\<rparr>)"
  by code_simp

text \<open>
  The other fields of every decided record: the confidence is the rounded share of the
  winning count, which is the greatest count, in the number of analysed tweets; and
  for a truthy winning outcome the index is its first position in the outcomes.
\<close>

lemma index_from_props:
  "index_from xs v k = Inr i \<Longrightarrow>
     k \<le> i \<and> nat (i - k) < length xs \<and> xs ! nat (i - k) = v \<and>
     v \<notin> set (take (nat (i - k)) xs)"
proof (induction xs arbitrary: k)
  case Nil
  then show ?case by simp
next
  case (Cons x xs)
  show ?case
  proof (cases "x = v")
    case True
    with Cons.prems show ?thesis by simp
  next
    case False
    with Cons.prems have "index_from xs v (k + 1) = Inr i" by simp
    from Cons.IH [OF this] have h: "k + 1 \<le> i" "nat (i - (k + 1)) < length xs"
      "xs ! nat (i - (k + 1)) = v" "v \<notin> set (take (nat (i - (k + 1))) xs)" by auto
    from h(1) have n: "nat (i - k) = Suc (nat (i - (k + 1)))" by linarith
    from h False show ?thesis unfolding n by auto
  qed
qed

lemma decided_record_fields:
  assumes "resolve_market e (PDict d) = Inr (Decided r)"
      and "map_of d ''outcomes'' = Some (PList outs)"
      and "py_iter (dict_get d ''reply_tweets'' (PList [])) = Inr tweets"
  shows "\<exists>wd. map_of (outcome_counts (final_tally e outs tweets)) (d_winning_outcome r) = Some wd \<and>
              d_confidence r = float_round (true_div (count_s wd) (d_total_analyzed r)) 4 \<and>
              list_all (\<lambda>kv. count_s (snd kv) \<le> count_s wd)
                (outcome_counts (final_tally e outs tweets))"
    and "d_total_analyzed r = total_analyzed (final_tally e outs tweets)"
    and "d_outcomes r = PList outs"
    and "truthy (d_winning_outcome r) \<Longrightarrow>
           0 \<le> d_winning_index r \<and> nat (d_winning_index r) < length outs \<and>
           outs ! nat (d_winning_index r) = d_winning_outcome r \<and>
           d_winning_outcome r \<notin> set (take (nat (d_winning_index r)) outs)"
    and "\<not> truthy (d_winning_outcome r) \<Longrightarrow> d_winning_index r = - 1"
proof -
  let ?t = "final_tally e outs tweets"
  from decided_from_sentiment_result [OF assms]
  have "sentiment_result (PDict d) outs ?t = Inr (Decided r)" .
  from sentiment_result_decided [OF this final_tally_distinct]
  obtain w where inv: "winner_inv (total_analyzed ?t) (outcome_counts ?t) w"
    and m: "max_count w \<noteq> 0"
    and wo: "d_winning_outcome r = winning_outcome w"
    and n: "d_total_analyzed r = total_analyzed ?t"
    and o: "d_outcomes r = PList outs"
    and c: "d_confidence r = float_round (true_div (max_count w) (total_analyzed ?t)) 4"
    and i: "if truthy (winning_outcome w)
              then index_from outs (winning_outcome w) 0 = Inr (d_winning_index r)
              else d_winning_index r = - 1"
    by blast
  from inv m obtain p1 wd p2 where p:
    "outcome_counts ?t = p1 @ (winning_outcome w, wd) # p2" "count_s wd = max_count w"
    "list_all (\<lambda>kv. beaten_by (snd kv) wd) p1" "list_all (\<lambda>kv. not_beating (snd kv) wd) p2"
    by (auto simp: winner_inv_def)
  have "(winning_outcome w, wd) \<in> set (outcome_counts ?t)" using p(1) by simp
  with final_tally_distinct have look: "map_of (outcome_counts ?t) (winning_outcome w) = Some wd"
    by (rule map_of_is_SomeI)
  have "list_all (\<lambda>kv. count_s (snd kv) \<le> count_s wd) (outcome_counts ?t)"
    using p by (auto simp: list_all_iff beaten_by_def not_beating_def)
  with look c p(2) n wo
  show "\<exists>wd. map_of (outcome_counts ?t) (d_winning_outcome r) = Some wd \<and>
              d_confidence r = float_round (true_div (count_s wd) (d_total_analyzed r)) 4 \<and>
              list_all (\<lambda>kv. count_s (snd kv) \<le> count_s wd) (outcome_counts ?t)"
    by simp
  from n show "d_total_analyzed r = total_analyzed ?t" .
  from o show "d_outcomes r = PList outs" .
  show "0 \<le> d_winning_index r \<and> nat (d_winning_index r) < length outs \<and>
           outs ! nat (d_winning_index r) = d_winning_outcome r \<and>
           d_winning_outcome r \<notin> set (take (nat (d_winning_index r)) outs)"
    if "truthy (d_winning_outcome r)"
    using that i wo index_from_props [of outs "winning_outcome w" 0 "d_winning_index r"]
    by simp
  show "d_winning_index r = - 1" if "\<not> truthy (d_winning_outcome r)"
    using that i wo by simp
qed

text \<open>The scenario of the five accepted replies.\<close>

lemma five_replies_scenario:
  "resolve_market (table_env five_table)
     (market (PStr ''m1'') (PStr ''q'') yes_no ''sentiment'' five_replies) =
     Inr (Decided
       \<lparr>d_market_id = PStr ''m1'', d_question = PStr ''q'',
        d_outcomes = PList [PStr ''Yes'', PStr ''No''],
        d_winning_outcome = PStr ''Yes'', d_winning_index = 0,
        d_confidence = fl (6 / 10), d_resolution_method = ''sentiment'',
        d_sentiment_breakdown =
          [(PStr ''Yes'',
            \<lparr>support_count = 3, support_percentage = 60, avg_confidence = fl (8 / 10)\<rparr>),
           (PStr ''No'',
            \<lparr>support_count = 2, support_percentage = 40, avg_confidence = fl (7 / 10)\<rparr>)],
        d_total_analyzed = 5\<rparr>)"
  by code_simp

subsection \<open>The breakdown\<close>

lemma sum_list_error:
  "(\<And>x. x \<in> set xs \<Longrightarrow> \<bar>f x - g x\<bar> \<le> (c::rat)) \<Longrightarrow>
     \<bar>sum_list (map f xs) - sum_list (map g xs)\<bar> \<le> of_nat (length xs) * c"
proof (induction xs)
  case Nil
  then show ?case by simp
next
  case (Cons a xs)
  have "\<bar>f a - g a\<bar> \<le> c" using Cons.prems by simp
  moreover have "\<bar>sum_list (map f xs) - sum_list (map g xs)\<bar> \<le> of_nat (length xs) * c"
    using Cons by simp
  ultimately show ?case by (simp add: algebra_simps)
qed

lemma sum_exact_percentages:
  assumes "tot \<noteq> 0" and "sum_counts oc = tot"
  shows "sum_list (map (\<lambda>kv. of_nat (count_s (snd kv)) / of_nat tot * 100) oc) = (100::rat)"
proof -
  have "sum_list (map (\<lambda>kv. of_nat (count_s (snd kv)) / of_nat tot * 100) oc) =
        of_nat (sum_counts oc) / of_nat tot * (100::rat)"
    unfolding sum_counts_def
    by (induction oc) (simp_all add: add_divide_distrib distrib_right)
  with assms show ?thesis by simp
qed

lemma count_le_sum_counts: "kv \<in> set oc \<Longrightarrow> count_s (snd kv) \<le> sum_counts oc"
  by (induction oc) (auto simp: sum_counts_def)

lemma percentage_error:
  assumes "c \<le> n" and "0 < n"
  shows "\<bar>float_round (fmul (true_div c n) 100) 2 - of_nat c / of_nat n * 100\<bar>
           \<le> 1 / 200 + 1 / 10 ^ 12"
proof -
  define x0 :: rat where "x0 = of_nat c / of_nat n"
  define x1 where "x1 = fl x0"
  define x2 where "x2 = fl (x1 * 100)"
  define r where "r = py_round x2 2"
  define x3 where "x3 = fl r"
  have p: "pow2 0 = 1" "pow2 7 = 128" "pow2 8 = 256"
    "pow2 (- 53) = 1 / 9007199254740992" "pow2 (- 46) = 1 / 70368744177664"
    "pow2 (- 45) = 1 / 35184372088832"
    by (simp_all add: pow2_def)
  have x0: "0 \<le> x0" "x0 \<le> 1"
    using assms by (simp_all add: x0_def)
  then have "\<bar>x0\<bar> \<le> pow2 0" unfolding p by linarith
  from fl_error [OF this] have e1: "\<bar>x1 - x0\<bar> \<le> 1 / 9007199254740992"
    by (simp add: x1_def p)
  with x0 have "\<bar>x1 * 100\<bar> \<le> pow2 7" unfolding p by linarith
  from fl_error [OF this] have e2: "\<bar>x2 - x1 * 100\<bar> \<le> 1 / 70368744177664"
    by (simp add: x2_def p)
  have e3: "\<bar>r - x2\<bar> \<le> 1 / 200"
    unfolding r_def by (rule py_round_error_2)
  from e1 e2 e3 x0 have "\<bar>r\<bar> \<le> pow2 8" unfolding p by linarith
  from fl_error [OF this] have e4: "\<bar>x3 - r\<bar> \<le> 1 / 35184372088832"
    by (simp add: x3_def p)
  have "(1 :: rat) / 10 ^ 12 = 1 / 1000000000000" by simp
  with e1 e2 e3 e4 have "\<bar>x3 - x0 * 100\<bar> \<le> 1 / 200 + 1 / 10 ^ 12"
    by linarith
  then show ?thesis
    by (simp add: x3_def r_def x2_def x1_def x0_def float_round_def fmul_def true_div_def)
qed

lemma decided_breakdown:
  assumes "resolve_market e (PDict d) = Inr (Decided r)"
      and "map_of d ''outcomes'' = Some (PList outs)"
      and "py_iter (dict_get d ''reply_tweets'' (PList [])) = Inr tweets"
  shows "d_sentiment_breakdown r =
           map (\<lambda>kv. (fst kv, breakdown_of (snd kv) (d_total_analyzed r)))
             (outcome_counts (final_tally e outs tweets))"
    and "d_total_analyzed r = total_analyzed (final_tally e outs tweets)"
    and "0 < d_total_analyzed r"
proof -
  let ?t = "final_tally e outs tweets"
  from decided_from_sentiment_result [OF assms]
  have "sentiment_result (PDict d) outs ?t = Inr (Decided r)" .
  from sentiment_result_decided [OF this final_tally_distinct]
  obtain w where inv: "winner_inv (total_analyzed ?t) (outcome_counts ?t) w"
    and t: "total_analyzed ?t \<noteq> 0" and b: "d_sentiment_breakdown r = sentiment_breakdown w"
    and n: "d_total_analyzed r = total_analyzed ?t"
    by blast
  from inv b n show "d_sentiment_breakdown r =
           map (\<lambda>kv. (fst kv, breakdown_of (snd kv) (d_total_analyzed r))) (outcome_counts ?t)"
    by (simp add: winner_inv_def)
  from n show "d_total_analyzed r = total_analyzed ?t" .
  from n t show "0 < d_total_analyzed r" by simp
qed

text \<open>
  The rounding of the breakdown on values where it matters: a tie goes to the even
  neighbour, and what is rounded is the float quotient, not the exact one. 87 of 160
  is 0.54375, the float quotient is below it, and the percentage is 54.37.
\<close>

lemma round_half_even_ties:
  "round_half_even (1 / 2) = 0 \<and> round_half_even (3 / 2) = 2 \<and>
   round_half_even (5 / 2) = 2 \<and> round_half_even (- 1 / 2) = 0 \<and>
   py_round (21 / 32) 4 = 6562 / 10000 \<and> py_round (3125 / 1000) 2 = 312 / 100"
  by code_simp

lemma rounding_of_float_quotients:
  "breakdown_of \<lparr>count_s = 87, confidence_sum = fl (522 / 10)\<rparr> 160 =
     \<lparr>support_count = 87, support_percentage = fl (5437 / 100),
      avg_confidence = fl (6 / 10)\<rparr> \<and>
   float_round (true_div 87 160) 4 = fl (5437 / 10000)"
  by code_simp

lemma breakdown_of_zero:
  "support_percentage (breakdown_of s 0) = 0 \<and>
   (count_s s = 0 \<longrightarrow> avg_confidence (breakdown_of s tot) = 0)"
  by (simp add: breakdown_of_def)

text \<open>
  C9, as amended. In a decided record the number of analysed tweets is positive and
  the breakdown has one entry for each entry of the dictionary of counts: its support
  percentage is \<^verbatim>\<open>round(count / total_analyzed * 100, 2)\<close> and its mean confidence
  \<^verbatim>\<open>round(confidence_sum / count, 4)\<close>, or 0 for a count of 0, all in float arithmetic.
  The support percentages add up to 100 within \<open>1 / 200 + 1 / 10 ^ 12\<close> for each outcome of
  the breakdown.
\<close>

theorem breakdown_percentages:
  assumes "resolve_market e (PDict d) = Inr (Decided r)"
      and "map_of d ''outcomes'' = Some (PList outs)"
      and "py_iter (dict_get d ''reply_tweets'' (PList [])) = Inr tweets"
  shows "d_sentiment_breakdown r =
           map (\<lambda>kv. (fst kv,
                  \<lparr>support_count = count_s (snd kv),
                   support_percentage =
                     float_round (fmul (true_div (count_s (snd kv)) (d_total_analyzed r)) 100) 2,
                   avg_confidence =
                     (if count_s (snd kv) = 0 then 0
                      else float_round
                             (fdiv (confidence_sum (snd kv)) (of_count (count_s (snd kv)))) 4)\<rparr>))
             (outcome_counts (final_tally e outs tweets)) \<and>
         0 < d_total_analyzed r \<and>
         \<bar>percentage_total r - 100\<bar>
           \<le> of_nat (length (d_sentiment_breakdown r)) * (1 / 200 + 1 / 10 ^ 12)"
proof -
  let ?n = "d_total_analyzed r"
  let ?oc = "outcome_counts (final_tally e outs tweets)"
  let ?p = "\<lambda>kv. float_round (fmul (true_div (count_s (snd kv)) ?n) 100) 2"
  let ?q = "\<lambda>kv. of_nat (count_s (snd kv)) / of_nat ?n * (100 :: rat)"
  note b = decided_breakdown [OF assms]
  have s: "sum_counts ?oc = ?n"
    by (simp add: b(2) final_tally_sum_counts)
  have exact: "sum_list (map ?q ?oc) = 100"
    using b(3) s by (intro sum_exact_percentages) simp_all
  have "\<bar>?p kv - ?q kv\<bar> \<le> 1 / 200 + 1 / 10 ^ 12" if "kv \<in> set ?oc" for kv
    using count_le_sum_counts [OF that] b(3) unfolding s by (rule percentage_error)
  then have "\<bar>sum_list (map ?p ?oc) - sum_list (map ?q ?oc)\<bar>
               \<le> of_nat (length ?oc) * (1 / 200 + 1 / 10 ^ 12)"
    by (rule sum_list_error)
  moreover have "map (\<lambda>kv. support_percentage (snd kv)) (d_sentiment_breakdown r) = map ?p ?oc"
    using b(3) by (simp add: b(1) breakdown_of_def o_def)
  moreover have "length (d_sentiment_breakdown r) = length ?oc"
    by (simp add: b(1))
  ultimately have "\<bar>percentage_total r - 100\<bar>
           \<le> of_nat (length (d_sentiment_breakdown r)) * (1 / 200 + 1 / 10 ^ 12)"
    using exact by (simp add: percentage_total_def)
  moreover have "d_sentiment_breakdown r =
           map (\<lambda>kv. (fst kv,
                  \<lparr>support_count = count_s (snd kv),
                   support_percentage =
                     float_round (fmul (true_div (count_s (snd kv)) (d_total_analyzed r)) 100) 2,
                   avg_confidence =
                     (if count_s (snd kv) = 0 then 0
                      else float_round
                             (fdiv (confidence_sum (snd kv)) (of_count (count_s (snd kv)))) 4)\<rparr>))
             ?oc"
    using b(3) by (simp add: b(1) breakdown_of_def)
  ultimately show ?thesis using b(3) by blast
qed

theorem breakdown_percentages_witness:
  "resolve_market (table_env thirds_table) (PDict thirds_fields) =
     Inr (Decided thirds_record) \<and>
   map_of thirds_fields ''outcomes'' = Some (PList abc) \<and>
   py_iter (dict_get thirds_fields ''reply_tweets'' (PList [])) = Inr thirds_replies \<and>
   0 < d_total_analyzed thirds_record \<and>
   \<bar>percentage_total thirds_record - 100\<bar>
     \<le> of_nat (length (d_sentiment_breakdown thirds_record)) * (1 / 200 + 1 / 10 ^ 12)"
proof -
  have r: "resolve_market (table_env thirds_table) (PDict thirds_fields) =
             Inr (Decided thirds_record)"
    by code_simp
  have o: "map_of thirds_fields ''outcomes'' = Some (PList abc)"
    by (simp add: thirds_fields_def market_fields_def)
  have t: "py_iter (dict_get thirds_fields ''reply_tweets'' (PList [])) = Inr thirds_replies"
    by (simp add: thirds_fields_def market_fields_def dict_get_def)
  from breakdown_percentages [OF r o t] r o t show ?thesis by blast
qed

text \<open>
  C9 as stated fails in the tolerance of 0.1: with 31 outcomes of one accepted reply
  each, every support percentage is the float 3.23 and their sum is off 100 by more
  than 0.1.
\<close>

theorem percentages_off_by_more_than_a_tenth:
  "resolve_market echo_env many_market = Inr (Decided many_record) \<and>
   1 / 10 < \<bar>percentage_total many_record - 100\<bar>"
  by code_simp

section \<open>Properties of \<open>classify_teams\<close>\<close>

lemma team_step_effect:
  assumes "team_step e labels tweet (stats, u) = Inr (stats', u')"
  shows "map fst stats' = map fst stats \<and>
         (\<forall>tm s. map_of stats tm = Some s \<longrightarrow>
            (\<exists>s'. map_of stats' tm = Some s' \<and>
                  ts_supporters s' = ts_supporters s @ qualifying_one e labels tm tweet \<and>
                  ts_count s' = ts_count s + length (qualifying_one e labels tm tweet)))"
proof (cases tweet)
  case (PDict d)
  show ?thesis
  proof (cases "map_of d ''text''")
    case None
    with PDict assms show ?thesis
      by (auto simp: team_step_def qualifying_one_def)
  next
    case (Some tx)
    let ?j = "classify_tweet e tx labels"
    show ?thesis
    proof (cases "truthy (team ?j) \<and> map_of stats (team ?j) \<noteq> None")
      case False
      with PDict Some assms have "stats' = stats"
        by (auto simp: team_step_def Let_def split: if_splits option.splits)
      moreover from False have "map_of stats tm = Some s \<Longrightarrow> qualifying_one e labels tm tweet = []" for tm s
        by (auto simp: qualifying_one_def PDict Some Let_def)
      ultimately show ?thesis by auto
    next
      case True
      then obtain s0 where s0: "map_of stats (team ?j) = Some s0" by auto
      let ?new = "\<lparr>sup_tweet_id = dict_get d ''id'' (PStr []),
                   sup_author = dict_get d ''author'' (PStr ''unknown''),
                   sup_text = tx, sup_confidence = confidence ?j\<rparr>"
      from PDict Some assms True s0
      have st: "stats' = AList.update (team ?j)
                  (s0\<lparr>ts_count := ts_count s0 + 1,
                      ts_confidence_sum := fadd (ts_confidence_sum s0) (confidence ?j),
                      ts_supporters := ts_supporters s0 @ [?new]\<rparr>) stats"
        by (auto simp: team_step_def Let_def split: if_splits)
      have k: "team ?j \<in> fst ` set stats"
        using s0 by (metis map_of_eq_None_iff option.distinct(1))
      have q: "qualifying_one e labels tm tweet = (if tm = team ?j then [?new] else [])" for tm
        using True by (auto simp: qualifying_one_def PDict Some Let_def)
      show ?thesis
        using k s0 by (auto simp: st update_keys update_conv' q)
    qed
  qed
qed (use assms in \<open>auto simp: team_step_def qualifying_one_def\<close>)

lemma team_loop_effect:
  assumes "team_loop e labels tweets (stats, u) = Inr (stats', u')"
  shows "map fst stats' = map fst stats \<and>
         (\<forall>tm s. map_of stats tm = Some s \<longrightarrow>
            (\<exists>s'. map_of stats' tm = Some s' \<and>
                  ts_supporters s' = ts_supporters s @ qualifying e labels tm tweets \<and>
                  ts_count s' = ts_count s + length (qualifying e labels tm tweets)))"
  using assms
proof (induction tweets arbitrary: stats u)
  case Nil
  then show ?case by (simp add: qualifying_def)
next
  case (Cons tw tws)
  from Cons.prems obtain st1 u1 where
    s1: "team_step e labels tw (stats, u) = Inr (st1, u1)"
    and l1: "team_loop e labels tws (st1, u1) = Inr (stats', u')"
    by (auto split: sum.splits)
  note a = team_step_effect [OF s1] and b = Cons.IH [OF l1]
  show ?case
  proof (intro conjI allI impI)
    show "map fst stats' = map fst stats" using a b by simp
  next
    fix tm s assume "map_of stats tm = Some s"
    with a obtain s1 where s1: "map_of st1 tm = Some s1"
      "ts_supporters s1 = ts_supporters s @ qualifying_one e labels tm tw"
      "ts_count s1 = ts_count s + length (qualifying_one e labels tm tw)" by blast
    with b obtain s' where "map_of stats' tm = Some s'"
      "ts_supporters s' = ts_supporters s1 @ qualifying e labels tm tws"
      "ts_count s' = ts_count s1 + length (qualifying e labels tm tws)" by blast
    with s1 show "\<exists>s'. map_of stats' tm = Some s' \<and>
                  ts_supporters s' = ts_supporters s @ qualifying e labels tm (tw # tws) \<and>
                  ts_count s' = ts_count s + length (qualifying e labels tm (tw # tws))"
      by (simp add: qualifying_def)
  qed
qed

lemma percentage_loop_effect:
  "percentage_loop tot ks (stats, w) = Inr (stats', w') \<Longrightarrow>
     map fst stats' = map fst stats \<and>
     (\<forall>tm s. map_of stats tm = Some s \<longrightarrow>
        (\<exists>s'. map_of stats' tm = Some s' \<and> ts_supporters s' = ts_supporters s \<and>
              ts_count s' = ts_count s))"
proof (induction ks arbitrary: stats w)
  case Nil
  then show ?case by simp
next
  case (Cons k ks)
  from Cons.prems obtain s0 where s0: "map_of stats k = Some s0"
    by (auto split: option.splits)
  define s1 where "s1 = s0\<lparr>ts_percentage := fmul (true_div (ts_count s0) tot) 100,
                     ts_avg_confidence :=
                       (if 0 < ts_count s0
                        then fdiv (ts_confidence_sum s0) (of_count (ts_count s0))
                        else 0)\<rparr>"
  define st1 where "st1 = AList.update k s1 stats"
  from Cons.prems s0 obtain w1 where "percentage_loop tot ks (st1, w1) = Inr (stats', w')"
    by (auto simp: Let_def s1_def st1_def split: if_splits option.splits)
  note b = Cons.IH [OF this]
  have k: "k \<in> fst ` set stats"
    using s0 by (metis map_of_eq_None_iff option.distinct(1))
  have a: "map fst st1 = map fst stats"
    using k by (simp add: st1_def update_keys)
  have c: "map_of stats tm = Some s \<Longrightarrow>
        \<exists>s'. map_of st1 tm = Some s' \<and> ts_supporters s' = ts_supporters s \<and>
              ts_count s' = ts_count s" for tm s
    using s0 by (auto simp: st1_def update_conv' s1_def)
  show ?case
  proof (intro conjI allI impI)
    show "map fst stats' = map fst stats" using a b by simp
  next
    fix tm s assume "map_of stats tm = Some s"
    from c [OF this] obtain s' where "map_of st1 tm = Some s'"
      "ts_supporters s' = ts_supporters s" "ts_count s' = ts_count s" by blast
    with b show "\<exists>s'. map_of stats' tm = Some s' \<and> ts_supporters s' = ts_supporters s \<and>
              ts_count s' = ts_count s"
      by fastforce
  qed
qed

lemma top_supporters_length: "length (top_supporters xs) = min 100 (length xs)"
  by (simp add: top_supporters_def)

lemma sorted_by_confidence:
  "sorted_wrt (\<lambda>a b. - sup_confidence a \<le> - sup_confidence b)
     (sort_key (\<lambda>x. - sup_confidence x) xs)"
  using sorted_sort_key [of "\<lambda>x. - sup_confidence x" xs] by (simp add: sorted_map)

lemma top_supporters_sorted:
  "sorted_wrt (\<lambda>a b. sup_confidence b \<le> sup_confidence a) (top_supporters xs)"
  using sorted_wrt_take [OF sorted_by_confidence, of 100 xs] by (simp add: top_supporters_def)

lemma top_supporters_split:
  "mset xs = mset (top_supporters xs) + mset (drop 100 (sort_key (\<lambda>x. - sup_confidence x) xs))"
proof -
  have "mset (take 100 (sort_key (\<lambda>x. - sup_confidence x) xs)) +
        mset (drop 100 (sort_key (\<lambda>x. - sup_confidence x) xs)) =
        mset (sort_key (\<lambda>x. - sup_confidence x) xs)"
    by (simp only: mset_append [symmetric] append_take_drop_id)
  then show ?thesis by (simp add: top_supporters_def)
qed

lemma top_supporters_highest:
  assumes "x \<in> set (drop 100 (sort_key (\<lambda>x. - sup_confidence x) xs))"
      and "y \<in> set (top_supporters xs)"
  shows "sup_confidence x \<le> sup_confidence y"
proof -
  let ?l = "sort_key (\<lambda>x. - sup_confidence x) xs"
  have "sorted_wrt (\<lambda>a b. - sup_confidence a \<le> - sup_confidence b) (take 100 ?l @ drop 100 ?l)"
    using sorted_by_confidence [of xs] by simp
  then have "\<forall>a\<in>set (take 100 ?l). \<forall>b\<in>set (drop 100 ?l). - sup_confidence a \<le> - sup_confidence b"
    by (simp only: sorted_wrt_append) blast
  with assms show ?thesis by (auto simp: top_supporters_def)
qed

lemma init_team_stats_distinct: "distinct (map fst (init_team_stats labels))"
  by (simp add: init_team_stats_def fold_update_distinct)

lemma init_team_stats_empty:
  "map_of (init_team_stats labels) tm = Some s \<Longrightarrow> s = empty_stat"
  using fold_update_values [of empty_stat "[]" labels]
  by (auto simp: init_team_stats_def list_all_iff dest!: map_of_SomeD)

lemma classify_teams_body_unfold:
  assumes "classify_teams_body e (PDict d) = Inr r"
      and "map_of d ''teams'' = Some (PList labels)"
      and "map_of d ''tweets'' = Some (PList tweets)"
  shows "\<exists>ts u ts' w.
           team_loop e (PList labels) tweets (init_team_stats labels, 0) = Inr (ts, u) \<and>
           (percentage_loop (sum_list (map (\<lambda>kv. ts_count (snd kv)) ts)) (map fst ts) (ts, PNone)
              = Inr (ts', w) \<or> ts' = ts) \<and>
           r_team_stats r = map (\<lambda>kv. (fst kv, report_of (snd kv))) ts'"
  using assms
  by (auto simp: classify_teams_body_def dict_get_def Let_def
        split: if_splits option.splits sum.splits prod.splits)

text \<open>
  C10. For every team of a result of \<open>classify_teams\<close>: the reported count is the
  number of qualifying items of the team; the reported supporters are as many as the
  qualifying items and at most 100, so exactly 100 when more than 100 items qualify;
  they are sorted by confidence in descending order; the qualifying items are the
  reported supporters together with dropped items none of which has a greater
  confidence than any reported supporter; and a team with at most 100 qualifying
  items reports all of them.
\<close>

theorem supporter_cap:
  assumes "classify_teams e (PDict d) = Inr (Classified r)"
      and "map_of d ''teams'' = Some (PList labels)"
      and "map_of d ''tweets'' = Some (PList tweets)"
      and "(tm, rep) \<in> set (r_team_stats r)"
  shows "tr_count rep = length (qualifying e (PList labels) tm tweets) \<and>
         length (tr_supporters rep) = min 100 (length (qualifying e (PList labels) tm tweets)) \<and>
         sorted_wrt (\<lambda>a b. sup_confidence b \<le> sup_confidence a) (tr_supporters rep) \<and>
         (\<exists>dropped.
            mset (qualifying e (PList labels) tm tweets) = mset (tr_supporters rep) + mset dropped \<and>
            (\<forall>x \<in> set dropped. \<forall>y \<in> set (tr_supporters rep).
               sup_confidence x \<le> sup_confidence y)) \<and>
         (length (qualifying e (PList labels) tm tweets) \<le> 100 \<longrightarrow>
            mset (tr_supporters rep) = mset (qualifying e (PList labels) tm tweets))"
proof -
  let ?q = "qualifying e (PList labels) tm tweets"
  from assms(1) have "classify_teams_body e (PDict d) = Inr r"
    by (auto simp: classify_teams_def split: sum.splits)
  from classify_teams_body_unfold [OF this assms(2,3)]
  obtain ts u ts' w where
    loop: "team_loop e (PList labels) tweets (init_team_stats labels, 0) = Inr (ts, u)"
    and pl: "percentage_loop (sum_list (map (\<lambda>kv. ts_count (snd kv)) ts)) (map fst ts) (ts, PNone)
              = Inr (ts', w) \<or> ts' = ts"
    and rs: "r_team_stats r = map (\<lambda>kv. (fst kv, report_of (snd kv))) ts'"
    by blast
  note le = team_loop_effect [OF loop]
  have pe: "map fst ts' = map fst ts \<and>
     (\<forall>tm s. map_of ts tm = Some s \<longrightarrow>
        (\<exists>s'. map_of ts' tm = Some s' \<and> ts_supporters s' = ts_supporters s \<and>
              ts_count s' = ts_count s))"
    using pl percentage_loop_effect by blast
  from assms(4) rs obtain s' where s': "(tm, s') \<in> set ts'" "rep = report_of s'"
    by auto
  have keys: "map fst ts' = map fst (init_team_stats labels)"
    using le pe by simp
  then have dist: "distinct (map fst ts')"
    by (simp add: init_team_stats_distinct)
  from s'(1) have "tm \<in> fst ` set ts'" by force
  then have "tm \<in> fst ` set (init_team_stats labels)"
    using keys by (metis set_map)
  then obtain s0 where s0: "map_of (init_team_stats labels) tm = Some s0"
    by (metis map_of_eq_None_iff not_Some_eq)
  then have e0: "s0 = empty_stat" by (rule init_team_stats_empty)
  from le s0 obtain s1 where s1: "map_of ts tm = Some s1"
    "ts_supporters s1 = ts_supporters s0 @ ?q" "ts_count s1 = ts_count s0 + length ?q"
    by blast
  from pe s1(1) obtain s2 where s2: "map_of ts' tm = Some s2"
    "ts_supporters s2 = ts_supporters s1" "ts_count s2 = ts_count s1"
    by blast
  from dist s'(1) have "map_of ts' tm = Some s'" by (rule map_of_is_SomeI)
  with s2 have "s2 = s'" by simp
  with s1 s2 e0 have sup: "ts_supporters s' = ?q" and cnt: "ts_count s' = length ?q"
    by (simp_all add: empty_stat_def)
  have r1: "tr_count rep = length ?q"
    by (simp add: s'(2) report_of_def cnt)
  have r2: "tr_supporters rep = top_supporters ?q"
    by (simp add: s'(2) report_of_def sup)
  have r3: "\<exists>dropped.
            mset ?q = mset (tr_supporters rep) + mset dropped \<and>
            (\<forall>x \<in> set dropped. \<forall>y \<in> set (tr_supporters rep).
               sup_confidence x \<le> sup_confidence y)"
    unfolding r2
    by (rule exI [of _ "drop 100 (sort_key (\<lambda>x. - sup_confidence x) ?q)"])
       (use top_supporters_split [of ?q] top_supporters_highest [of _ ?q] in blast)
  have r4: "length ?q \<le> 100 \<longrightarrow> mset (tr_supporters rep) = mset ?q"
    unfolding r2 by (simp add: top_supporters_def)
  from r1 r3 r4 show ?thesis
    by (simp add: r2 top_supporters_length top_supporters_sorted)
qed

theorem supporter_cap_witness:
  "\<exists>r rep.
     classify_teams length_env (PDict crowd_data) = Inr (Classified r) \<and>
     map_of crowd_data ''teams'' = Some (PList [PStr ''Pro'', PStr ''Anti'']) \<and>
     map_of crowd_data ''tweets'' = Some (PList crowd) \<and>
     (PStr ''Pro'', rep) \<in> set (r_team_stats r) \<and>
     length (qualifying length_env (PList [PStr ''Pro'', PStr ''Anti'']) (PStr ''Pro'') crowd) = 101 \<and>
     length (tr_supporters rep) = 100"
proof -
  have "(case classify_teams length_env (PDict crowd_data) of
          Inr (Classified r) \<Rightarrow>
            map (\<lambda>kv. (fst kv, tr_count (snd kv))) (r_team_stats r) =
              [(PStr ''Pro'', 101), (PStr ''Anti'', 0)]
        | _ \<Rightarrow> False)"
    by code_simp
  then obtain r where r: "classify_teams length_env (PDict crowd_data) = Inr (Classified r)"
    and k: "map (\<lambda>kv. (fst kv, tr_count (snd kv))) (r_team_stats r) =
              [(PStr ''Pro'', 101), (PStr ''Anti'', 0)]"
    by (auto split: sum.splits teams_output.splits)
  from k obtain rep where m: "(PStr ''Pro'', rep) \<in> set (r_team_stats r)" and c: "tr_count rep = 101"
    by (cases "r_team_stats r") auto
  have t: "map_of crowd_data ''teams'' = Some (PList [PStr ''Pro'', PStr ''Anti''])"
    by (simp add: crowd_data_def)
  have w: "map_of crowd_data ''tweets'' = Some (PList crowd)"
    by (simp add: crowd_data_def)
  from supporter_cap [OF r t w m] c
  have "length (qualifying length_env (PList [PStr ''Pro'', PStr ''Anti'']) (PStr ''Pro'') crowd) = 101"
    and "length (tr_supporters rep) = 100"
    by simp_all
  with r t w m show ?thesis by blast
qed

end
